theory Spec2Isabelle
  imports Main "HOL-Library.Sublist"
begin

section \<open>Python values and built-ins used by \<^verbatim>\<open>scraper.py\<close>\<close>

text \<open>
  A Python call that may raise is a value of \<open>string + 'a\<close>: \<open>Inl msg\<close> is an
  exception whose \<^verbatim>\<open>str(e)\<close> is \<open>msg\<close>, \<open>Inr v\<close> is the returned value.
  \<open>and_then\<close> sequences two such calls: the second runs only when the first returned.
  The exceptions are those of class \<^verbatim>\<open>Exception\<close>, which the libraries raise: the
  handlers written \<^verbatim>\<open>except Exception\<close> and the bare \<^verbatim>\<open>except:\<close> both catch them.
\<close>

definition and_then :: "string + 'a \<Rightarrow> ('a \<Rightarrow> string + 'b) \<Rightarrow> string + 'b" where
  "and_then m f = (case m of Inl e \<Rightarrow> Inl e | Inr a \<Rightarrow> f a)"

text \<open>\<^verbatim>\<open>s.lower()\<close> on the ASCII letters.\<close>

definition lower_char :: "char \<Rightarrow> char" where
  "lower_char c =
     (let n = (of_char c :: nat) in if 65 \<le> n \<and> n \<le> 90 then char_of (n + 32) else c)"

definition lower :: "string \<Rightarrow> string" where
  "lower s = map lower_char s"

text \<open>\<^verbatim>\<open>s.startswith(p)\<close> and the substring test \<^verbatim>\<open>needle in s\<close>.\<close>

fun startswith :: "string \<Rightarrow> string \<Rightarrow> bool" where
  "startswith s [] = True"
| "startswith [] (p # ps) = False"
| "startswith (c # cs) (p # ps) = (c = p \<and> startswith cs ps)"

fun contains :: "string \<Rightarrow> string \<Rightarrow> bool" where
  "contains needle [] = (needle = [])"
| "contains needle (c # cs) = (startswith (c # cs) needle \<or> contains needle cs)"

text \<open>\<^verbatim>\<open>any(noise in s for noise in noises)\<close>.\<close>

definition any_in :: "string list \<Rightarrow> string \<Rightarrow> bool" where
  "any_in noises s = list_ex (\<lambda>noise. contains noise s) noises"

text \<open>\<^verbatim>\<open>sep.join(parts)\<close>.\<close>

fun join :: "string \<Rightarrow> string list \<Rightarrow> string" where
  "join sep [] = []"
| "join sep [x] = x"
| "join sep (x # y # ys) = x @ sep @ join sep (y # ys)"

text \<open>\<^verbatim>\<open>s.split()\<close>: the maximal runs of non-whitespace characters.\<close>

definition is_space :: "char \<Rightarrow> bool" where
  "is_space c = (of_char c \<in> {9, 10, 11, 12, 13, 32 :: nat})"

fun split_ws :: "string \<Rightarrow> string \<Rightarrow> string list" where
  "split_ws w [] = (if w = [] then [] else [w])"
| "split_ws w (c # cs) =
     (if is_space c then (if w = [] then split_ws [] cs else w # split_ws [] cs)
      else split_ws (w @ [c]) cs)"

definition py_split :: "string \<Rightarrow> string list" where
  "py_split s = split_ws [] s"

text \<open>\<^verbatim>\<open>str(n)\<close> for a non-negative integer: its decimal digits.\<close>

definition digit_char :: "nat \<Rightarrow> char" where
  "digit_char d = char_of (48 + d)"

fun str_nat :: "nat \<Rightarrow> string" where
  "str_nat n = (if n < 10 then [digit_char n] else str_nat (n div 10) @ [digit_char (n mod 10)])"

declare str_nat.simps [simp del]


section \<open>The data model: sections, interaction log, error records\<close>

record link =
  ltext :: string
  href :: string

record image =
  src :: string
  alt :: string

record content =
  headings :: "string list"
  ctext :: string
  links :: "link list"
  images :: "image list"
  lists :: "string list list"
  tables :: "string list list list"

record section_rec =
  sec_id :: string
  sec_type :: string
  sec_label :: string
  sourceUrl :: string
  sec_content :: content
  rawHtml :: string
  truncated :: bool

record page_meta =
  title :: string
  description :: string
  language :: string
  canonical :: "string option"

record interaction_log =
  clicks :: "string list"
  scrolls :: nat
  pages :: "string list"

record error_record =
  message :: string
  phase :: string


section \<open>The parsed document: what the scraper asks of BeautifulSoup\<close>

text \<open>
  The parse tree is an external library's. The scraper reads it only through the calls
  below, so the model takes them as a record of functions over an element type \<open>'e\<close>
  (the \<^verbatim>\<open>BeautifulSoup\<close> object and every \<^verbatim>\<open>Tag\<close>); each theorem then holds
  for whatever these calls return.
  \<^item> \<open>bs_select e css\<close> is \<^verbatim>\<open>e.select(css)\<close>, \<open>bs_select_one\<close> is \<^verbatim>\<open>e.select_one(css)\<close>;
  \<^item> \<open>bs_parent\<close> is \<^verbatim>\<open>e.parent\<close>, \<open>bs_name\<close> is \<^verbatim>\<open>e.name\<close>;
  \<^item> \<open>bs_get e a\<close> is \<^verbatim>\<open>e.get(a)\<close> for the attributes BeautifulSoup keeps as one string
    (href, src, data-src, alt, content, lang), \<open>bs_get_class e\<close> is \<^verbatim>\<open>e.get("class")\<close>,
    which BeautifulSoup keeps as a list of strings;
  \<^item> \<open>bs_get_text\<close> is \<^verbatim>\<open>e.get_text(strip=True)\<close>, \<open>bs_str\<close> is \<^verbatim>\<open>str(e)\<close>.
  A \<^verbatim>\<open>Tag\<close> is always truthy, so \<^verbatim>\<open>if element\<close> only tests for \<^verbatim>\<open>None\<close>.
\<close>

datatype attr_value = AttrList "string list" | AttrStr string

record 'e bs4 =
  bs_select :: "'e \<Rightarrow> string \<Rightarrow> 'e list"
  bs_select_one :: "'e \<Rightarrow> string \<Rightarrow> 'e option"
  bs_parent :: "'e \<Rightarrow> 'e option"
  bs_name :: "'e \<Rightarrow> string option"
  bs_get :: "'e \<Rightarrow> string \<Rightarrow> string option"
  bs_get_class :: "'e \<Rightarrow> attr_value option"
  bs_get_text :: "'e \<Rightarrow> string"
  bs_str :: "'e \<Rightarrow> string"

text \<open>
  \<^verbatim>\<open>urllib.parse.urljoin(base, url)\<close> is a parameter \<open>uj\<close> of type
  \<open>string \<Rightarrow> string \<Rightarrow> string + string\<close>: the library raises \<^verbatim>\<open>ValueError\<close> on a
  reference it cannot parse (for instance \<^verbatim>\<open>urljoin("https://x.test/", "//[")\<close>).
\<close>

type_synonym urljoin = "string \<Rightarrow> string \<Rightarrow> string + string"


section \<open>\<^verbatim>\<open>WebsiteScraper._extract_section_from_element\<close>\<close>

text \<open>
  Lines 221-241: the section type from the tag name, then from the class attribute
  (\<open>class_str_of\<close> is lines 234-235, the attribute as one string).
\<close>

definition class_str_of :: "'e bs4 \<Rightarrow> 'e \<Rightarrow> string" where
  "class_str_of B element =
     (case bs_get_class B element of
        None \<Rightarrow> join '' '' []
      | Some (AttrList class_attr) \<Rightarrow> join '' '' class_attr
      | Some (AttrStr class_attr) \<Rightarrow> class_attr)"

definition section_type_of :: "'e bs4 \<Rightarrow> 'e \<Rightarrow> string" where
  "section_type_of B element =
     (let tag_name = (case bs_name B element of
                        None \<Rightarrow> ''unknown''
                      | Some n \<Rightarrow> if n \<noteq> [] then lower n else ''unknown'');
          section_type =
            (if tag_name = ''header'' then ''nav''
             else if tag_name = ''nav'' then ''nav''
             else if tag_name = ''footer'' then ''footer''
             else if tag_name \<in> set [''section'', ''article'', ''main''] then ''section''
             else ''unknown'');
          class_str = class_str_of B element
      in if contains ''hero'' (lower class_str) then ''hero''
         else if contains ''faq'' (lower class_str) then ''faq''
         else if contains ''pricing'' (lower class_str) then ''pricing''
         else section_type)"

text \<open>Lines 250-262: paragraph texts, then div and span texts when paragraphs are sparse.\<close>

definition extract_text_parts :: "'e bs4 \<Rightarrow> 'e \<Rightarrow> string list" where
  "extract_text_parts B element =
     (let text_parts = filter (\<lambda>t. t \<noteq> [] \<and> length t > 10)
                          (map (bs_get_text B) (bs_select B element ''p''))
      in if length text_parts < 2
         then fold (\<lambda>d parts. let t = bs_get_text B d
                               in if t \<noteq> [] \<and> length t > 20 \<and> t \<notin> set parts
                                  then parts @ [t] else parts)
                   (bs_select B element ''div, span'') text_parts
         else text_parts)"

text \<open>Lines 267-277: the loop over the anchors; \<open>urljoin\<close> may raise.\<close>

fun extract_links :: "'e bs4 \<Rightarrow> urljoin \<Rightarrow> string \<Rightarrow> 'e list \<Rightarrow> link list \<Rightarrow> string + link list" where
  "extract_links B uj source_url [] acc = Inr acc"
| "extract_links B uj source_url (a # rest) acc =
     (case bs_get B a ''href'' of
        None \<Rightarrow> extract_links B uj source_url rest acc
      | Some h \<Rightarrow>
          if h = [] then extract_links B uj source_url rest acc
          else (case uj source_url h of
                  Inl e \<Rightarrow> Inl e
                | Inr absolute_url \<Rightarrow>
                    (let link_text = bs_get_text B a
                     in if link_text \<noteq> []
                        then extract_links B uj source_url rest
                               (acc @ [\<lparr>ltext = take 100 link_text, href = absolute_url\<rparr>])
                        else extract_links B uj source_url rest acc)))"

text \<open>Lines 280-289: the loop over the images; \<^verbatim>\<open>img.get("src") or img.get("data-src")\<close>.\<close>

definition img_src :: "'e bs4 \<Rightarrow> 'e \<Rightarrow> string option" where
  "img_src B img =
     (case bs_get B img ''src'' of
        None \<Rightarrow> bs_get B img ''data-src''
      | Some s \<Rightarrow> if s \<noteq> [] then Some s else bs_get B img ''data-src'')"

fun extract_images :: "'e bs4 \<Rightarrow> urljoin \<Rightarrow> string \<Rightarrow> 'e list \<Rightarrow> image list \<Rightarrow> string + image list" where
  "extract_images B uj source_url [] acc = Inr acc"
| "extract_images B uj source_url (img # rest) acc =
     (case img_src B img of
        None \<Rightarrow> extract_images B uj source_url rest acc
      | Some s \<Rightarrow>
          if s = [] then extract_images B uj source_url rest acc
          else (case uj source_url s of
                  Inl e \<Rightarrow> Inl e
                | Inr absolute_src \<Rightarrow>
                    extract_images B uj source_url rest
                      (acc @ [\<lparr>src = absolute_src,
                                  alt = (case bs_get B img ''alt'' of None \<Rightarrow> [] | Some a \<Rightarrow> a)\<rparr>])))"

text \<open>Lines 292-314: lists and tables.\<close>

definition extract_lists :: "'e bs4 \<Rightarrow> 'e \<Rightarrow> string list list" where
  "extract_lists B element =
     filter (\<lambda>items. items \<noteq> [])
       (map (\<lambda>ul_ol. filter (\<lambda>item_text. item_text \<noteq> [])
                        (map (bs_get_text B) (bs_select B ul_ol ''li'')))
            (bs_select B element ''ul, ol''))"

definition extract_tables :: "'e bs4 \<Rightarrow> 'e \<Rightarrow> string list list list" where
  "extract_tables B element =
     filter (\<lambda>table_data. table_data \<noteq> [])
       (map (\<lambda>table. filter (\<lambda>row. row \<noteq> [])
                        (map (\<lambda>tr. map (bs_get_text B) (bs_select B tr ''td, th''))
                             (bs_select B table ''tr'')))
            (bs_select B element ''table''))"

text \<open>Lines 317-322: the label before its cut to 100 characters.\<close>

definition section_label :: "string list \<Rightarrow> string \<Rightarrow> string" where
  "section_label hs text_content =
     (case hs of
        h # _ \<Rightarrow> take 50 h
      | [] \<Rightarrow> if text_content \<noteq> []
              then join '' '' (take 7 (py_split text_content))
              else ''Section'')"

text \<open>Lines 216-346, the whole method. \<open>section_id\<close> is the caller's counter, never negative.\<close>

definition extract_section_from_element ::
  "'e bs4 \<Rightarrow> urljoin \<Rightarrow> 'e option \<Rightarrow> string \<Rightarrow> nat \<Rightarrow> string + section_rec option" where
  "extract_section_from_element B uj element_opt source_url section_id =
     (case element_opt of
        None \<Rightarrow> Inr None
      | Some element \<Rightarrow>
         (let section_type = section_type_of B element;
              hs = filter (\<lambda>t. t \<noteq> [])
                     (map (bs_get_text B) (bs_select B element ''h1, h2, h3, h4, h5, h6''));
              text_parts = extract_text_parts B element;
              text_content = join '' '' (take 10 text_parts)
          in and_then (extract_links B uj source_url (bs_select B element ''a'') []) (\<lambda>ls.
             and_then (extract_images B uj source_url (bs_select B element ''img'') []) (\<lambda>imgs.
               (let lsts = extract_lists B element;
                    tbls = extract_tables B element;
                    label = section_label hs text_content;
                    raw_html = bs_str B element;
                    cut = (length raw_html > 5000)
                in Inr (Some
                     \<lparr>sec_id = section_type @ ''-'' @ str_nat section_id,
                      sec_type = section_type,
                      sec_label = take 100 label,
                      sourceUrl = source_url,
                      sec_content =
                        \<lparr>headings = take 10 hs,
                         ctext = take 5000 text_content,
                         links = take 50 ls,
                         images = take 20 imgs,
                         lists = take 10 lsts,
                         tables = take 5 tbls\<rparr>,
                      rawHtml = (if cut then take 5000 raw_html @ ''...'' else raw_html),
                      truncated = cut\<rparr>))))))"


section \<open>\<^verbatim>\<open>WebsiteScraper._extract_sections\<close>\<close>

text \<open>
  Lines 196-204: the loop over the landmark elements. \<open>secs\<close> is the list
  \<^verbatim>\<open>sections\<close>; the loop returns it with \<^verbatim>\<open>section_id_counter\<close>.
\<close>

fun landmark_loop ::
  "'e bs4 \<Rightarrow> urljoin \<Rightarrow> string \<Rightarrow> 'e list \<Rightarrow> section_rec list \<Rightarrow> nat
     \<Rightarrow> string + (section_rec list \<times> nat)" where
  "landmark_loop B uj source_url [] secs section_id_counter = Inr (secs, section_id_counter)"
| "landmark_loop B uj source_url (landmark # rest) secs section_id_counter =
     (if any_in [''cookie'', ''banner'', ''modal'', ''popup''] (lower (bs_str B landmark))
      then landmark_loop B uj source_url rest secs section_id_counter
      else (case extract_section_from_element B uj (Some landmark) source_url section_id_counter of
              Inl e \<Rightarrow> Inl e
            | Inr None \<Rightarrow> landmark_loop B uj source_url rest secs section_id_counter
            | Inr (Some sec) \<Rightarrow>
                landmark_loop B uj source_url rest (secs @ [sec]) (section_id_counter + 1)))"

text \<open>Lines 184-194: the loop over the h1, h2 and h3 elements, each through its parent.\<close>

fun heading_loop ::
  "'e bs4 \<Rightarrow> urljoin \<Rightarrow> string \<Rightarrow> 'e list \<Rightarrow> section_rec list \<Rightarrow> nat
     \<Rightarrow> string + (section_rec list \<times> nat)" where
  "heading_loop B uj source_url [] secs section_id_counter = Inr (secs, section_id_counter)"
| "heading_loop B uj source_url (heading # rest) secs section_id_counter =
     (case bs_parent B heading of
        None \<Rightarrow> heading_loop B uj source_url rest secs section_id_counter
      | Some parent \<Rightarrow>
          if any_in [''cookie'', ''banner'', ''modal''] (lower (bs_str B parent))
          then heading_loop B uj source_url rest secs section_id_counter
          else (case extract_section_from_element B uj (Some parent) source_url section_id_counter of
                  Inl e \<Rightarrow> Inl e
                | Inr None \<Rightarrow> heading_loop B uj source_url rest secs section_id_counter
                | Inr (Some sec) \<Rightarrow>
                    heading_loop B uj source_url rest (secs @ [sec]) (section_id_counter + 1)))"

text \<open>
  Lines 165-214. The list \<^verbatim>\<open>noise_selectors\<close> of lines 171-176 is assigned and never
  read, so it has no counterpart here.
\<close>

definition extract_sections ::
  "'e bs4 \<Rightarrow> urljoin \<Rightarrow> 'e \<Rightarrow> string \<Rightarrow> string + section_rec list" where
  "extract_sections B uj parser source_url =
     (let landmarks = bs_select B parser ''header, nav, main, section, footer, article''
      in and_then
           (if landmarks = []
            then heading_loop B uj source_url (bs_select B parser ''h1, h2, h3'') [] 0
            else landmark_loop B uj source_url landmarks [] 0)
           (\<lambda>(secs, section_id_counter).
              if secs = []
              then (case bs_select_one B parser ''body'' of
                      None \<Rightarrow> Inr secs
                    | Some body \<Rightarrow>
                        and_then
                          (extract_section_from_element B uj (Some body) source_url section_id_counter)
                          (\<lambda>r. case r of None \<Rightarrow> Inr secs | Some sec \<Rightarrow> Inr (secs @ [sec])))
              else Inr secs))"


section \<open>\<^verbatim>\<open>WebsiteScraper._extract_meta\<close>\<close>

definition get_default :: "'e bs4 \<Rightarrow> 'e \<Rightarrow> string \<Rightarrow> string \<Rightarrow> string" where
  "get_default B e a d = (case bs_get B e a of None \<Rightarrow> d | Some v \<Rightarrow> v)"

definition extract_meta :: "'e bs4 \<Rightarrow> 'e \<Rightarrow> page_meta \<Rightarrow> page_meta" where
  \<open>extract_meta B parser m0 =
     (let m1 = (case bs_select_one B parser ''title'' of
                  None \<Rightarrow> (case bs_select_one B parser ''meta[property="og:title"]'' of
                             None \<Rightarrow> m0
                           | Some og_title \<Rightarrow> m0\<lparr>title := get_default B og_title ''content'' []\<rparr>)
                | Some title_elem \<Rightarrow> m0\<lparr>title := bs_get_text B title_elem\<rparr>);
          m2 = (case bs_select_one B parser ''meta[name="description"]'' of
                  None \<Rightarrow> (case bs_select_one B parser ''meta[property="og:description"]'' of
                             None \<Rightarrow> m1
                           | Some og_desc \<Rightarrow> m1\<lparr>description := get_default B og_desc ''content'' []\<rparr>)
                | Some desc_elem \<Rightarrow> m1\<lparr>description := get_default B desc_elem ''content'' []\<rparr>);
          m3 = (case bs_select_one B parser ''html'' of
                  None \<Rightarrow> m2
                | Some html_elem \<Rightarrow>
                    (let lang = get_default B html_elem ''lang'' ''en''
                     in m2\<lparr>language := (if lang \<noteq> [] then take 2 lang else ''en'')\<rparr>))
      in (case bs_select_one B parser ''link[rel="canonical"]'' of
            None \<Rightarrow> m3
          | Some canonical_elem \<Rightarrow> m3\<lparr>canonical := bs_get B canonical_elem ''href''\<rparr>))\<close>


section \<open>The scraper object and the browser it drives\<close>

text \<open>
  The fields of \<^verbatim>\<open>WebsiteScraper\<close> that the methods read or write (\<^verbatim>\<open>base_url\<close> and
  \<^verbatim>\<open>self.sections\<close> are set once and never read). \<open>browser\<close> is the state of the
  Playwright browser, which the methods change through the page they hold.
  \<open>js_scrape_calls\<close> is not a field of the Python object: it counts the entries
  into \<^verbatim>\<open>_js_scrape\<close>, so that a theorem can say whether the render path ran.
\<close>

record 'w scraper =
  url :: string
  visited_urls :: "string set"
  interactions :: interaction_log
  errors :: "error_record list"
  meta :: page_meta
  browser :: 'w
  js_scrape_calls :: nat

definition WebsiteScraper :: "string \<Rightarrow> 'w \<Rightarrow> 'w scraper" where
  "WebsiteScraper u w =
     \<lparr>url = u, visited_urls = {},
      interactions = \<lparr>clicks = [], scrolls = 0, pages = []\<rparr>,
      errors = [],
      meta = \<lparr>title = [], description = [], language = ''en'', canonical = None\<rparr>,
      browser = w, js_scrape_calls = 0\<rparr>"

text \<open>
  Every awaited Playwright call may raise and may change the browser: a call is a
  function from the browser's state to an outcome and the next state. \<open>'h\<close> is the type
  of element handles. \<open>pw_launch\<close> stands for entering \<^verbatim>\<open>async_playwright()\<close>,
  \<^verbatim>\<open>chromium.launch\<close>, \<^verbatim>\<open>new_context\<close> and \<^verbatim>\<open>new_page\<close>; \<open>pw_close\<close> is
  \<^verbatim>\<open>browser.close()\<close>; \<open>pw_evaluate\<close> returns the number the script evaluates to.
\<close>

record ('w, 'h) playwright =
  pw_launch :: "'w \<Rightarrow> (string + unit) \<times> 'w"
  pw_goto :: "string \<Rightarrow> 'w \<Rightarrow> (string + unit) \<times> 'w"
  pw_wait_for_timeout :: "nat \<Rightarrow> 'w \<Rightarrow> (string + unit) \<times> 'w"
  pw_query_selector_all :: "string \<Rightarrow> 'w \<Rightarrow> (string + 'h list) \<times> 'w"
  pw_query_selector :: "string \<Rightarrow> 'w \<Rightarrow> (string + 'h option) \<times> 'w"
  pw_click :: "'h \<Rightarrow> 'w \<Rightarrow> (string + unit) \<times> 'w"
  pw_get_attribute :: "'h \<Rightarrow> string \<Rightarrow> 'w \<Rightarrow> (string + string option) \<times> 'w"
  pw_evaluate :: "string \<Rightarrow> 'w \<Rightarrow> (string + int) \<times> 'w"
  pw_wait_for_selector :: "string \<Rightarrow> 'w \<Rightarrow> (string + unit) \<times> 'w"
  pw_content :: "'w \<Rightarrow> (string + string) \<times> 'w"
  pw_close :: "'w \<Rightarrow> (string + unit) \<times> 'w"

text \<open>
  The environment of one scrape: \<open>requests_get u\<close> is \<^verbatim>\<open>requests.get(u, ...)\<close> followed
  by \<^verbatim>\<open>raise_for_status()\<close> and \<^verbatim>\<open>.text\<close> (\<open>Inl\<close> when either raises);
  \<open>BeautifulSoup markup features\<close> is the parser's constructor, which raises when the
  parser \<open>features\<close> is not installed or rejects the markup; \<open>now\<close> is the clock's
  \<^verbatim>\<open>datetime.now(timezone.utc).isoformat()\<close>.
\<close>

record ('e, 'w, 'h) env =
  requests_get :: "string \<Rightarrow> string + string"
  BeautifulSoup :: "string \<Rightarrow> string \<Rightarrow> string + 'e"
  bs :: "'e bs4"
  urljoin :: urljoin
  PLAYWRIGHT_AVAILABLE :: bool
  pw :: "('w, 'h) playwright"
  now :: string

text \<open>
  A method of the scraper is a function from the object's state to an outcome and the
  next state; the state survives an exception, as the Python object does.
  \<open>page_op\<close> is a call on the page, \<open>seq\<close> runs a second step when the first
  returned, \<open>call\<close> is a call that reads the state and leaves it as it is,
  \<open>update\<close> a step that cannot raise.
\<close>

definition page_op :: "('w \<Rightarrow> (string + 'a) \<times> 'w) \<Rightarrow> 'w scraper \<Rightarrow> (string + 'a) \<times> 'w scraper" where
  "page_op f s = (case f (browser s) of (r, w) \<Rightarrow> (r, s\<lparr>browser := w\<rparr>))"

definition seq ::
  "('s \<Rightarrow> (string + 'a) \<times> 's) \<Rightarrow> ('a \<Rightarrow> 's \<Rightarrow> (string + 'b) \<times> 's) \<Rightarrow> 's \<Rightarrow> (string + 'b) \<times> 's" where
  "seq m f s = (case m s of (Inl e, s') \<Rightarrow> (Inl e, s') | (Inr a, s') \<Rightarrow> f a s')"

definition ret :: "'a \<Rightarrow> 's \<Rightarrow> (string + 'a) \<times> 's" where
  "ret a s = (Inr a, s)"

definition call :: "('s \<Rightarrow> string + 'a) \<Rightarrow> 's \<Rightarrow> (string + 'a) \<times> 's" where
  "call f s = (f s, s)"

definition update :: "('s \<Rightarrow> 's) \<Rightarrow> 's \<Rightarrow> (string + unit) \<times> 's" where
  "update f s = (Inr (), f s)"

definition append_error :: "string \<Rightarrow> string \<Rightarrow> 'w scraper \<Rightarrow> 'w scraper" where
  "append_error msg ph s = s\<lparr>errors := errors s @ [\<lparr>message = msg, phase = ph\<rparr>]\<rparr>"

definition append_click :: "string \<Rightarrow> 'w scraper \<Rightarrow> 'w scraper" where
  "append_click sel s =
     s\<lparr>interactions := (interactions s)\<lparr>clicks := clicks (interactions s) @ [sel]\<rparr>\<rparr>"

definition incr_scrolls :: "'w scraper \<Rightarrow> 'w scraper" where
  "incr_scrolls s =
     s\<lparr>interactions := (interactions s)\<lparr>scrolls := scrolls (interactions s) + 1\<rparr>\<rparr>"

definition visit_page :: "string \<Rightarrow> 'w scraper \<Rightarrow> 'w scraper" where
  "visit_page u s =
     s\<lparr>visited_urls := insert u (visited_urls s),
       interactions := (interactions s)\<lparr>pages := pages (interactions s) @ [u]\<rparr>\<rparr>"


section \<open>\<^verbatim>\<open>WebsiteScraper._handle_interactions\<close>\<close>

text \<open>
  Lines 407-412, the inner \<^verbatim>\<open>try\<close> around the click on \<^verbatim>\<open>tabs[0]\<close>: a failure of the
  click or of the wait after it is passed over (\<^verbatim>\<open>except: pass\<close>).
\<close>

definition click_first_tab :: "('w, 'h) playwright \<Rightarrow> 'h \<Rightarrow> 'w scraper \<Rightarrow> 'w scraper" where
  \<open>click_first_tab P tab s =
     (case page_op (pw_click P tab) s of
        (Inl e, s1) \<Rightarrow> s1
      | (Inr _, s1) \<Rightarrow>
          (case page_op (pw_wait_for_timeout P 1000) (append_click ''[role="tab"] or .tab'' s1) of
             (Inl e, s2) \<Rightarrow> s2
           | (Inr _, s2) \<Rightarrow> s2))\<close>

definition load_more_selectors :: "string list" where
  \<open>load_more_selectors =
     [''button:has-text("Load more")'', ''button:has-text("Show more")'',
      ''a:has-text("Load more")'', ''[class*="load-more"]'', ''[class*="show-more"]'']\<close>

text \<open>
  Lines 423-432: the loop over the selectors. Every failure inside one round goes to
  the next selector (\<^verbatim>\<open>except: continue\<close>); the loop ends (\<^verbatim>\<open>break\<close>) after the click,
  the append and the wait of one round have all returned.
\<close>

fun load_more_loop :: "('w, 'h) playwright \<Rightarrow> string list \<Rightarrow> 'w scraper \<Rightarrow> 'w scraper" where
  "load_more_loop P [] s = s"
| "load_more_loop P (selector # rest) s =
     (case page_op (pw_query_selector P selector) s of
        (Inl e, s1) \<Rightarrow> load_more_loop P rest s1
      | (Inr None, s1) \<Rightarrow> load_more_loop P rest s1
      | (Inr (Some button), s1) \<Rightarrow>
          (case page_op (pw_click P button) s1 of
             (Inl e, s2) \<Rightarrow> load_more_loop P rest s2
           | (Inr _, s2) \<Rightarrow>
               (case page_op (pw_wait_for_timeout P 2000) (append_click selector s2) of
                  (Inl e, s3) \<Rightarrow> load_more_loop P rest s3
                | (Inr _, s3) \<Rightarrow> s3)))"

text \<open>Lines 400-438. Only the query for the tabs stands outside the inner handlers.\<close>

definition handle_interactions :: "('w, 'h) playwright \<Rightarrow> 'w scraper \<Rightarrow> 'w scraper" where
  \<open>handle_interactions P s =
     (case page_op (pw_query_selector_all P ''[role="tab"], .tab, [class*="tab"]'') s of
        (Inl e, s1) \<Rightarrow> append_error (''Interaction handling failed: '' @ e) ''interaction'' s1
      | (Inr tabs, s1) \<Rightarrow>
          load_more_loop P load_more_selectors
            (case tabs of [] \<Rightarrow> s1 | tab # _ \<Rightarrow> click_first_tab P tab s1))\<close>


section \<open>\<^verbatim>\<open>WebsiteScraper._handle_scroll_and_pagination\<close>\<close>

definition next_links :: "string list" where
  \<open>next_links =
     [''a:has-text("Next")'', ''a:has-text("next")'', ''[class*="next"]'',
      ''[class*="pagination"] a:last-child'']\<close>

text \<open>
  Lines 468-482: the loop over the pagination selectors. The new URL is recorded and
  the loop left (\<^verbatim>\<open>break\<close>) right after the click and \<^verbatim>\<open>wait_for_selector\<close> returned.
\<close>

fun pagination_loop ::
  "('w, 'h) playwright \<Rightarrow> urljoin \<Rightarrow> string list \<Rightarrow> 'w scraper \<Rightarrow> 'w scraper" where
  "pagination_loop P uj [] s = s"
| "pagination_loop P uj (selector # rest) s =
     (case page_op (pw_query_selector P selector) s of
        (Inl e, s1) \<Rightarrow> pagination_loop P uj rest s1
      | (Inr None, s1) \<Rightarrow> pagination_loop P uj rest s1
      | (Inr (Some next_link), s1) \<Rightarrow>
          (case page_op (pw_get_attribute P next_link ''href'') s1 of
             (Inl e, s2) \<Rightarrow> pagination_loop P uj rest s2
           | (Inr None, s2) \<Rightarrow> pagination_loop P uj rest s2
           | (Inr (Some h), s2) \<Rightarrow>
               if h = [] then pagination_loop P uj rest s2
               else (case uj (url s2) h of
                       Inl e \<Rightarrow> pagination_loop P uj rest s2
                     | Inr next_url \<Rightarrow>
                         if next_url \<notin> visited_urls s2 \<and> card (visited_urls s2) < 3
                         then (case page_op (pw_click P next_link) s2 of
                                 (Inl e, s3) \<Rightarrow> pagination_loop P uj rest s3
                               | (Inr _, s3) \<Rightarrow>
                                   (case page_op (pw_wait_for_selector P ''body'') s3 of
                                      (Inl e, s4) \<Rightarrow> pagination_loop P uj rest s4
                                    | (Inr _, s4) \<Rightarrow> visit_page next_url s4))
                         else pagination_loop P uj rest s2)))"

text \<open>Lines 447-482: one round of \<^verbatim>\<open>for i in range(3)\<close>, and the loop.\<close>

definition scroll_round ::
  "('w, 'h) playwright \<Rightarrow> urljoin \<Rightarrow> nat \<Rightarrow> 'w scraper \<Rightarrow> (string + unit) \<times> 'w scraper" where
  "scroll_round P uj i =
     seq (page_op (pw_evaluate P ''window.scrollTo(0, document.body.scrollHeight)'')) (\<lambda>_.
     seq (update incr_scrolls) (\<lambda>_.
     seq (page_op (pw_wait_for_timeout P 2000)) (\<lambda>_.
     seq (page_op (pw_evaluate P ''document.body.scrollHeight'')) (\<lambda>current_height.
     seq (page_op (pw_wait_for_timeout P 1000)) (\<lambda>_.
     seq (page_op (pw_evaluate P ''document.body.scrollHeight'')) (\<lambda>new_height.
       if current_height = new_height \<and> i = 0
       then update (pagination_loop P uj next_links)
       else ret ()))))))"

fun scroll_loop ::
  "('w, 'h) playwright \<Rightarrow> urljoin \<Rightarrow> nat list \<Rightarrow> 'w scraper \<Rightarrow> (string + unit) \<times> 'w scraper" where
  "scroll_loop P uj [] s = (Inr (), s)"
| "scroll_loop P uj (i # rest) s =
     (case scroll_round P uj i s of
        (Inl e, s1) \<Rightarrow> (Inl e, s1)
      | (Inr _, s1) \<Rightarrow> scroll_loop P uj rest s1)"

text \<open>Lines 487-490: \<^verbatim>\<open>for _ in range(3 - scrolls)\<close>, the bound read once.\<close>

fun more_scrolling :: "('w, 'h) playwright \<Rightarrow> nat \<Rightarrow> 'w scraper \<Rightarrow> (string + unit) \<times> 'w scraper" where
  "more_scrolling P 0 s = (Inr (), s)"
| "more_scrolling P (Suc k) s =
     (case page_op (pw_evaluate P ''window.scrollTo(0, document.body.scrollHeight)'') s of
        (Inl e, s1) \<Rightarrow> (Inl e, s1)
      | (Inr _, s1) \<Rightarrow>
          (case page_op (pw_wait_for_timeout P 1500) (incr_scrolls s1) of
             (Inl e, s2) \<Rightarrow> (Inl e, s2)
           | (Inr _, s2) \<Rightarrow> more_scrolling P k s2))"

text \<open>Lines 440-496.\<close>

definition handle_scroll_and_pagination ::
  "('w, 'h) playwright \<Rightarrow> urljoin \<Rightarrow> 'w scraper \<Rightarrow> 'w scraper" where
  "handle_scroll_and_pagination P uj s =
     (case seq (scroll_loop P uj [0, 1, 2]) (\<lambda>_ s1.
             if length (pages (interactions s1)) < 3 \<and> scrolls (interactions s1) < 3
             then more_scrolling P (3 - scrolls (interactions s1)) s1
             else (Inr (), s1)) s of
        (Inl e, s2) \<Rightarrow> append_error (''Scroll/pagination failed: '' @ e) ''scroll'' s2
      | (Inr _, s2) \<Rightarrow> s2)"


section \<open>\<^verbatim>\<open>WebsiteScraper._js_scrape\<close>\<close>

text \<open>
  The returned dictionary. Its entry \<^verbatim>\<open>"interactions"\<close> is the object
  \<^verbatim>\<open>self.interactions\<close> itself, which the state already holds.
\<close>

record js_result =
  js_sections :: "section_rec list"
  js_errors :: "error_record list"

text \<open>
  Lines 365-394, the body of the \<^verbatim>\<open>try\<close>: the steps after the navigation (lines
  371-394), and the navigation with the record of the seed URL before them.
\<close>

definition js_scrape_after_goto ::
  "('e, 'w, 'h) env \<Rightarrow> 'w scraper \<Rightarrow> (string + js_result option) \<times> 'w scraper" where
  "js_scrape_after_goto E =
     seq (page_op (pw_wait_for_timeout (pw E) 2000)) (\<lambda>_.
     seq (update (handle_interactions (pw E))) (\<lambda>_.
     seq (update (handle_scroll_and_pagination (pw E) (urljoin E))) (\<lambda>_.
     seq (page_op (pw_content (pw E))) (\<lambda>html.
     seq (call (\<lambda>s. BeautifulSoup E html ''lxml'')) (\<lambda>parser.
     seq (update (\<lambda>s. s\<lparr>meta := extract_meta (bs E) parser (meta s)\<rparr>)) (\<lambda>_.
     seq (call (\<lambda>s. extract_sections (bs E) (urljoin E) parser (url s))) (\<lambda>secs.
     seq (page_op (pw_close (pw E))) (\<lambda>_.
       ret (Some \<lparr>js_sections = secs, js_errors = []\<rparr>)))))))))"

definition js_scrape_try ::
  "('e, 'w, 'h) env \<Rightarrow> 'w scraper \<Rightarrow> (string + js_result option) \<times> 'w scraper" where
  "js_scrape_try E s0 =
     seq (page_op (pw_goto (pw E) (url s0))) (\<lambda>_.
     seq (update (\<lambda>s. visit_page (url s) s)) (\<lambda>_.
       js_scrape_after_goto E)) s0"

text \<open>
  Lines 348-398. An exception of the \<^verbatim>\<open>try\<close> closes the browser and is raised again
  (or the exception of \<^verbatim>\<open>browser.close()\<close> is, when that raises).
\<close>

definition js_scrape ::
  "('e, 'w, 'h) env \<Rightarrow> 'w scraper \<Rightarrow> (string + js_result option) \<times> 'w scraper" where
  "js_scrape E s0 =
     (let s = s0\<lparr>js_scrape_calls := js_scrape_calls s0 + 1\<rparr>
      in if \<not> PLAYWRIGHT_AVAILABLE E
         then (Inr None,
               append_error
                 ''Playwright not available. Install with: pip install playwright && playwright install chromium''
                 ''render'' s)
         else (case page_op (pw_launch (pw E)) s of
                 (Inl e, s1) \<Rightarrow> (Inl e, s1)
               | (Inr _, s1) \<Rightarrow>
                   (case js_scrape_try E s1 of
                      (Inr r, s2) \<Rightarrow> (Inr r, s2)
                    | (Inl e, s2) \<Rightarrow>
                        (case page_op (pw_close (pw E)) s2 of
                           (Inl e', s3) \<Rightarrow> (Inl e', s3)
                         | (Inr _, s3) \<Rightarrow> (Inl e, s3)))))"


section \<open>\<^verbatim>\<open>WebsiteScraper._static_fetch\<close> and \<^verbatim>\<open>WebsiteScraper.scrape\<close>\<close>

definition static_fetch :: "('e, 'w, 'h) env \<Rightarrow> 'w scraper \<Rightarrow> string option \<times> 'w scraper" where
  "static_fetch E s =
     (case requests_get E (url s) of
        Inr response_text \<Rightarrow> (Some response_text, s)
      | Inl e \<Rightarrow> (None, append_error (''Static fetch failed: '' @ e) ''fetch'' s))"

record envelope =
  e_url :: string
  e_scrapedAt :: string
  e_meta :: page_meta
  e_sections :: "section_rec list"
  e_interactions :: interaction_log
  e_errors :: "error_record list"

text \<open>Line 61: the sum of the lengths of the sections' texts.\<close>

definition total_text :: "section_rec list \<Rightarrow> nat" where
  "total_text secs = sum_list (map (\<lambda>sec. length (ctext (sec_content sec))) secs)"

text \<open>Lines 77-88: the branch taken when \<^verbatim>\<open>static_html\<close> is \<^verbatim>\<open>None\<close> or empty.\<close>

definition scrape_js_only ::
  "('e, 'w, 'h) env \<Rightarrow> 'w scraper \<Rightarrow> (string + section_rec list) \<times> 'w scraper" where
  "scrape_js_only E s1 =
     (case js_scrape E s1 of
        (Inr (Some r), s2) \<Rightarrow> (Inr (js_sections r), s2\<lparr>errors := errors s2 @ js_errors r\<rparr>)
      | (Inr None, s2) \<Rightarrow> (Inr [], s2)
      | (Inl e, s2) \<Rightarrow> (Inr [], append_error (''JS scraping failed: '' @ e) ''render'' s2))"

text \<open>Lines 62-74: the escalation when the static sections hold little text.\<close>

definition scrape_js_fallback ::
  "('e, 'w, 'h) env \<Rightarrow> section_rec list \<Rightarrow> 'w scraper
     \<Rightarrow> (string + section_rec list) \<times> 'w scraper" where
  "scrape_js_fallback E secs s2 =
     (case js_scrape E s2 of
        (Inr (Some r), s3) \<Rightarrow>
          if js_sections r \<noteq> []
          then (Inr (js_sections r), s3\<lparr>errors := errors s3 @ js_errors r\<rparr>)
          else (Inr secs, s3)
      | (Inr None, s3) \<Rightarrow> (Inr secs, s3)
      | (Inl e, s3) \<Rightarrow> (Inr secs, append_error (''JS scraping failed: '' @ e) ''render'' s3))"

text \<open>
  Lines 50-88: the value of \<^verbatim>\<open>sections\<close> before the sentinel is substituted. The
  parse and the extraction of the static path stand outside every \<^verbatim>\<open>try\<close>: what they
  raise leaves \<^verbatim>\<open>scrape\<close>.
\<close>

definition scrape_paths ::
  "('e, 'w, 'h) env \<Rightarrow> 'w scraper \<Rightarrow> (string + section_rec list) \<times> 'w scraper" where
  "scrape_paths E s0 =
     (case static_fetch E s0 of
        (None, s1) \<Rightarrow> scrape_js_only E s1
      | (Some static_html, s1) \<Rightarrow>
          if static_html \<noteq> []
          then (case BeautifulSoup E static_html ''html.parser'' of
                  Inl e \<Rightarrow> (Inl e, s1)
                | Inr parser \<Rightarrow>
                    (let s2 = s1\<lparr>meta := extract_meta (bs E) parser (meta s1)\<rparr>
                     in case extract_sections (bs E) (urljoin E) parser (url s2) of
                          Inl e \<Rightarrow> (Inl e, s2)
                        | Inr secs \<Rightarrow>
                            if total_text secs < 500
                            then scrape_js_fallback E secs s2
                            else (Inr secs, s2)))
          else scrape_js_only E s1)"

text \<open>Lines 92-107: the sentinel section.\<close>

definition sentinel :: "string \<Rightarrow> section_rec" where
  "sentinel u =
     \<lparr>sec_id = ''empty-0'', sec_type = ''unknown'', sec_label = ''No content found'',
      sourceUrl = u,
      sec_content = \<lparr>headings = [], ctext = [], links = [], images = [], lists = [], tables = []\<rparr>,
      rawHtml = [], truncated = False\<rparr>"

text \<open>Lines 46-116.\<close>

definition scrape :: "('e, 'w, 'h) env \<Rightarrow> 'w scraper \<Rightarrow> (string + envelope) \<times> 'w scraper" where
  "scrape E s0 =
     (let scraped_at = now E
      in case scrape_paths E s0 of
           (Inl e, s) \<Rightarrow> (Inl e, s)
         | (Inr secs, s) \<Rightarrow>
             (Inr \<lparr>e_url = url s, e_scrapedAt = scraped_at, e_meta = meta s,
                   e_sections = (if secs = [] then [sentinel (url s)] else secs),
                   e_interactions = interactions s, e_errors = errors s\<rparr>, s))"


section \<open>The regions of segmentation\<close>

text \<open>
  What the two loops and the body fallback amount to, as lists of elements: the
  regions of each tier after its own substring test, the regions the method extracts
  (\<open>segment_regions\<close>), and the extraction of a list of regions with consecutive
  ordinals (\<open>extract_all\<close>). The theorems below prove that \<open>extract_sections\<close>
  computes exactly this.
\<close>

definition landmark_regions :: "'e bs4 \<Rightarrow> 'e \<Rightarrow> 'e list" where
  "landmark_regions B parser =
     filter (\<lambda>landmark. \<not> any_in [''cookie'', ''banner'', ''modal'', ''popup''] (lower (bs_str B landmark)))
       (bs_select B parser ''header, nav, main, section, footer, article'')"

definition heading_regions :: "'e bs4 \<Rightarrow> 'e \<Rightarrow> 'e list" where
  "heading_regions B parser =
     filter (\<lambda>parent. \<not> any_in [''cookie'', ''banner'', ''modal''] (lower (bs_str B parent)))
       (concat (map (\<lambda>heading. case bs_parent B heading of None \<Rightarrow> [] | Some parent \<Rightarrow> [parent])
                    (bs_select B parser ''h1, h2, h3'')))"

definition body_regions :: "'e bs4 \<Rightarrow> 'e \<Rightarrow> 'e list" where
  "body_regions B parser = (case bs_select_one B parser ''body'' of None \<Rightarrow> [] | Some body \<Rightarrow> [body])"

definition segment_regions :: "'e bs4 \<Rightarrow> 'e \<Rightarrow> 'e list" where
  "segment_regions B parser =
     (if bs_select B parser ''header, nav, main, section, footer, article'' = []
      then (if heading_regions B parser = [] then body_regions B parser else heading_regions B parser)
      else (if landmark_regions B parser = [] then body_regions B parser else landmark_regions B parser))"

fun extract_all :: "'e bs4 \<Rightarrow> urljoin \<Rightarrow> string \<Rightarrow> 'e list \<Rightarrow> nat \<Rightarrow> string + section_rec list" where
  "extract_all B uj source_url [] k = Inr []"
| "extract_all B uj source_url (r # rs) k =
     (case extract_section_from_element B uj (Some r) source_url k of
        Inl e \<Rightarrow> Inl e
      | Inr None \<Rightarrow> extract_all B uj source_url rs k
      | Inr (Some sec) \<Rightarrow>
          (case extract_all B uj source_url rs (k + 1) of
             Inl e \<Rightarrow> Inl e
           | Inr secs \<Rightarrow> Inr (sec # secs)))"


section \<open>Sample documents and a sample browser\<close>

text \<open>
  Concrete instances of the library interfaces, on which the scraper can be run: a
  document is a tree of tags and strings, an element is the tree with the path to one
  of its nodes. \<open>doc_select\<close> understands the selectors that are lists of tag names
  (all that the segmentation and the extraction use); \<open>markup_of\<close> writes a tag as
  \<^verbatim>\<open><name attr="value">...</name>\<close>. \<open>sample_urljoin\<close> returns an absolute reference
  as it is, appends a relative one to the base, and raises on the reference
  \<^verbatim>\<open>//[\<close> as the library does.
\<close>

datatype node = Tag string "(string \<times> string) list" "node list" | Text string

type_synonym elem = "node \<times> nat list"

fun node_at :: "node \<Rightarrow> nat list \<Rightarrow> node option" where
  "node_at n [] = Some n"
| "node_at (Text t) (i # p) = None"
| "node_at (Tag t a kids) (i # p) = (if i < length kids then node_at (kids ! i) p else None)"

fun tag_paths :: "node \<Rightarrow> nat list list" and kids_paths :: "nat \<Rightarrow> node list \<Rightarrow> nat list list" where
  "tag_paths (Text t) = []"
| "tag_paths (Tag t a kids) = kids_paths 0 kids"
| "kids_paths i [] = []"
| "kids_paths i (k # ks) =
     (case k of Text t \<Rightarrow> [] | Tag t a c \<Rightarrow> [i] # map ((#) i) (tag_paths k)) @ kids_paths (Suc i) ks"

definition css_names :: "string \<Rightarrow> string list" where
  "css_names css = py_split (map (\<lambda>c. if c = CHR '','' then CHR '' '' else c) css)"

definition tag_of :: "node \<Rightarrow> string option" where
  "tag_of n = (case n of Tag t a kids \<Rightarrow> Some t | Text t \<Rightarrow> None)"

definition attrs_of :: "node \<Rightarrow> (string \<times> string) list" where
  "attrs_of n = (case n of Tag t a kids \<Rightarrow> a | Text t \<Rightarrow> [])"

definition strip :: "string \<Rightarrow> string" where
  "strip s = rev (dropWhile is_space (rev (dropWhile is_space s)))"

fun strings_of :: "node \<Rightarrow> string list" where
  "strings_of (Text t) = [t]"
| "strings_of (Tag t a kids) = concat (map strings_of kids)"

fun markup_of :: "node \<Rightarrow> string" where
  "markup_of (Text t) = t"
| "markup_of (Tag t a kids) =
     (if t = ''[document]'' then concat (map markup_of kids)
      else ''<'' @ t @ concat (map (\<lambda>(k, v). '' '' @ k @ ''=\"'' @ v @ ''\"'') a) @ ''>''
           @ concat (map markup_of kids) @ ''</'' @ t @ ''>'')"

definition doc_select :: "elem \<Rightarrow> string \<Rightarrow> elem list" where
  "doc_select e css =
     (case node_at (fst e) (snd e) of
        None \<Rightarrow> []
      | Some n \<Rightarrow>
          map (\<lambda>q. (fst e, snd e @ q))
            (filter (\<lambda>q. case node_at n q of
                            None \<Rightarrow> False
                          | Some m \<Rightarrow> (case tag_of m of None \<Rightarrow> False
                                       | Some t \<Rightarrow> t \<in> set (css_names css)))
                    (tag_paths n)))"

definition on_node :: "(node \<Rightarrow> 'a) \<Rightarrow> 'a \<Rightarrow> elem \<Rightarrow> 'a" where
  "on_node f d e = (case node_at (fst e) (snd e) of None \<Rightarrow> d | Some n \<Rightarrow> f n)"

definition doc_bs4 :: "elem bs4" where
  "doc_bs4 =
     \<lparr>bs_select = doc_select,
      bs_select_one = (\<lambda>e css. case doc_select e css of [] \<Rightarrow> None | x # _ \<Rightarrow> Some x),
      bs_parent = (\<lambda>e. if snd e = [] then None else Some (fst e, butlast (snd e))),
      bs_name = on_node tag_of None,
      bs_get = (\<lambda>e a. on_node (\<lambda>n. map_of (attrs_of n) a) None e),
      bs_get_class = on_node (\<lambda>n. map_option (\<lambda>v. AttrList (py_split v)) (map_of (attrs_of n) ''class'')) None,
      bs_get_text = on_node (\<lambda>n. concat (filter (\<lambda>t. t \<noteq> []) (map strip (strings_of n)))) [],
      bs_str = on_node markup_of []\<rparr>"

definition sample_urljoin :: urljoin where
  "sample_urljoin base u =
     (if startswith u ''//['' then Inl ''Invalid IPv6 URL''
      else if startswith u ''http'' then Inr u
      else Inr (base @ u))"

definition document :: "node list \<Rightarrow> elem" where
  "document kids = (Tag ''[document]'' [] kids, [])"

text \<open>Some sample pages and the sections the scraper extracts from them.\<close>

definition at_path :: "elem \<Rightarrow> nat list \<Rightarrow> elem" where
  "at_path d p = (fst d, p)"

definition pricing_doc :: elem where
  "pricing_doc = document [Tag ''body'' []
     [Tag ''section'' [(''class'', ''hero faq pricing'')]
        [Tag ''h2'' [] [Text ''Plans''], Tag ''a'' [(''href'', ''buy'')] [Text '' Buy now '']]]]"

definition pricing_section :: section_rec where
  \<open>pricing_section =
     \<lparr>sec_id = ''hero-0'', sec_type = ''hero'', sec_label = ''Plans'',
      sourceUrl = ''https://x.test/'',
      sec_content =
        \<lparr>headings = [''Plans''], ctext = [],
         links = [\<lparr>ltext = ''Buy now'', href = ''https://x.test/buy''\<rparr>],
         images = [], lists = [], tables = []\<rparr>,
      rawHtml = ''<section class="hero faq pricing"><h2>Plans</h2><a href="buy"> Buy now </a></section>'',
      truncated = False\<rparr>\<close>


definition cookie_doc :: elem where
  "cookie_doc = document [Tag ''html'' [] [Tag ''body'' []
     [Tag ''header'' [(''class'', ''cookie'')] [Text ''We use cookies''],
      Tag ''div'' [] [Tag ''h1'' [] [Text ''Title'']]]]]"

definition overlay_doc :: elem where
  "overlay_doc = document [Tag ''body'' []
     [Tag ''section'' [(''class'', ''overlay'')] [Tag ''p'' [] [Text ''Subscribe now'']]]]"

definition popup_doc :: elem where
  "popup_doc = document [Tag ''body'' []
     [Tag ''div'' [(''class'', ''popup'')] [Tag ''h2'' [] [Text ''Sign up'']]]]"

definition cookie_body_section :: section_rec where
  \<open>cookie_body_section =
     \<lparr>sec_id = ''unknown-0'', sec_type = ''unknown'', sec_label = ''Title'',
      sourceUrl = ''https://x.test/'',
      sec_content =
        \<lparr>headings = [''Title''], ctext = [], links = [], images = [], lists = [], tables = []\<rparr>,
      rawHtml = ''<body><header class="cookie">We use cookies</header><div><h1>Title</h1></div></body>'',
      truncated = False\<rparr>\<close>

definition overlay_section :: section_rec where
  \<open>overlay_section =
     \<lparr>sec_id = ''section-0'', sec_type = ''section'', sec_label = ''Subscribe now'',
      sourceUrl = ''https://x.test/'',
      sec_content =
        \<lparr>headings = [], ctext = ''Subscribe now'', links = [], images = [], lists = [], tables = []\<rparr>,
      rawHtml = ''<section class="overlay"><p>Subscribe now</p></section>'',
      truncated = False\<rparr>\<close>

definition popup_section :: section_rec where
  \<open>popup_section =
     \<lparr>sec_id = ''unknown-0'', sec_type = ''unknown'', sec_label = ''Sign up'',
      sourceUrl = ''https://x.test/'',
      sec_content =
        \<lparr>headings = [''Sign up''], ctext = [], links = [], images = [], lists = [], tables = []\<rparr>,
      rawHtml = ''<div class="popup"><h2>Sign up</h2></div>'',
      truncated = False\<rparr>\<close>


section \<open>Growth of the interaction log\<close>

text \<open>
  The relations in which the bounds on the log are proved. \<open>log_grows a b c s s'\<close>:
  from \<open>s\<close> to \<open>s'\<close> the clicks, the pages and the errors were only appended to, by
  at most \<open>a\<close> clicks and \<open>b\<close> pages, the scroll counter rose by at most \<open>c\<close>,
  and the URL and the count of render calls are unchanged. \<open>grows_by a b c m\<close>: every
  run of the step \<open>m\<close> changes the state so, whether it returns or raises.
\<close>

definition log_grows :: "nat \<Rightarrow> nat \<Rightarrow> nat \<Rightarrow> 'w scraper \<Rightarrow> 'w scraper \<Rightarrow> bool" where
  "log_grows a b c s s' =
     (prefix (clicks (interactions s)) (clicks (interactions s'))
      \<and> length (clicks (interactions s')) \<le> length (clicks (interactions s)) + a
      \<and> prefix (pages (interactions s)) (pages (interactions s'))
      \<and> length (pages (interactions s')) \<le> length (pages (interactions s)) + b
      \<and> scrolls (interactions s) \<le> scrolls (interactions s')
      \<and> scrolls (interactions s') \<le> scrolls (interactions s) + c
      \<and> prefix (errors s) (errors s')
      \<and> url s' = url s
      \<and> js_scrape_calls s' = js_scrape_calls s)"

definition grows_by ::
  "nat \<Rightarrow> nat \<Rightarrow> nat \<Rightarrow> ('w scraper \<Rightarrow> (string + 'a) \<times> 'w scraper) \<Rightarrow> bool" where
  "grows_by a b c m = (\<forall>s r s'. m s = (r, s') \<longrightarrow> log_grows a b c s s')"


section \<open>The outcome of the static path\<close>

text \<open>
  Names for what lines 51-58 compute, used to state when the render path runs:
  \<open>static_extraction\<close> is \<open>None\<close> when the static fetch failed or returned an empty
  body, and otherwise the outcome of the parse and the extraction;
  \<open>static_sections\<close> are the sections extracted statically (none when nothing was);
  \<open>render_needed\<close> is the test of lines 54 and 62.
\<close>

definition static_extraction :: "('e, 'w, 'h) env \<Rightarrow> string \<Rightarrow> (string + section_rec list) option" where
  "static_extraction E u =
     (case requests_get E u of
        Inl e \<Rightarrow> None
      | Inr static_html \<Rightarrow>
          if static_html = [] then None
          else Some (and_then (BeautifulSoup E static_html ''html.parser'')
                       (\<lambda>parser. extract_sections (bs E) (urljoin E) parser u)))"


definition render_needed :: "('e, 'w, 'h) env \<Rightarrow> string \<Rightarrow> bool" where
  "render_needed E u =
     (case static_extraction E u of
        None \<Rightarrow> True
      | Some (Inl e) \<Rightarrow> False
      | Some (Inr secs) \<Rightarrow> total_text secs < 500)"


section \<open>A sample browser, sample runs\<close>

text \<open>
  A browser whose state is the number of clicks made so far and whose element handles
  are the selectors that found them. A \<open>sample_page\<close> says which handles the tab query
  returns, which selectors find an element, which handles time out when clicked,
  after how many clicks the 2-second wait raises, the \<^verbatim>\<open>href\<close> of each handle, whether
  the page is broken (queries for tabs, scripts and the content raise), and the
  document that the rendered markup parses to. \<open>sample_env\<close> puts it together with a
  static response (an exception or a document).
\<close>

record sample_page =
  sp_tabs :: "string list"
  sp_present :: "string list"
  sp_click_fails :: "string list"
  sp_wait_fails_at :: "nat option"
  sp_hrefs :: "(string \<times> string) list"
  sp_broken :: bool
  sp_rendered :: elem

definition sample_pw :: "sample_page \<Rightarrow> (nat, string) playwright" where
  "sample_pw p =
     \<lparr>pw_launch = (\<lambda>w. (Inr (), w)),
      pw_goto = (\<lambda>u w. (Inr (), w)),
      pw_wait_for_timeout =
        (\<lambda>ms w. if ms = 2000 \<and> sp_wait_fails_at p = Some w
                 then (Inl ''wait interrupted'', w) else (Inr (), w)),
      pw_query_selector_all =
        (\<lambda>css w. if sp_broken p then (Inl ''Target closed'', w) else (Inr (sp_tabs p), w)),
      pw_query_selector =
        (\<lambda>css w. (Inr (if css \<in> set (sp_present p) then Some css else None), w)),
      pw_click =
        (\<lambda>h w. if h \<in> set (sp_click_fails p)
                then (Inl ''Timeout 5000ms exceeded'', w) else (Inr (), Suc w)),
      pw_get_attribute = (\<lambda>h a w. (Inr (map_of (sp_hrefs p) h), w)),
      pw_evaluate =
        (\<lambda>script w. if sp_broken p then (Inl ''Target closed'', w) else (Inr 1080, w)),
      pw_wait_for_selector = (\<lambda>css w. (Inr (), w)),
      pw_content =
        (\<lambda>w. if sp_broken p then (Inl ''Target closed'', w)
             else (Inr (bs_str doc_bs4 (sp_rendered p)), w)),
      pw_close = (\<lambda>w. (Inr (), w))\<rparr>"

definition sample_env :: "string + elem \<Rightarrow> bool \<Rightarrow> sample_page \<Rightarrow> (elem, nat, string) env" where
  "sample_env static available p =
     \<lparr>requests_get = (\<lambda>u. case static of Inl e \<Rightarrow> Inl e | Inr d \<Rightarrow> Inr (bs_str doc_bs4 d)),
      BeautifulSoup = (\<lambda>markup features.
         if features = ''lxml'' then Inr (sp_rendered p)
         else (case static of Inl e \<Rightarrow> Inr (document []) | Inr d \<Rightarrow> Inr d)),
      bs = doc_bs4,
      urljoin = sample_urljoin,
      PLAYWRIGHT_AVAILABLE = available,
      pw = sample_pw p,
      now = ''2024-01-01T00:00:00+00:00''\<rparr>"

definition plain_page :: sample_page where
  \<open>plain_page =
     \<lparr>sp_tabs = [''tab0''],
      sp_present = [''button:has-text("Load more")'', ''button:has-text("Show more")'',
                    ''a:has-text("Next")''],
      sp_click_fails = [], sp_wait_fails_at = None,
      sp_hrefs = [(''a:has-text("Next")'', ''page2'')],
      sp_broken = False, sp_rendered = document []\<rparr>\<close>

definition plain_envelope :: envelope where
  \<open>plain_envelope =
     \<lparr>e_url = ''https://x.test/'', e_scrapedAt = ''2024-01-01T00:00:00+00:00'',
      e_meta = \<lparr>title = [], description = [], language = ''en'', canonical = None\<rparr>,
      e_sections = [sentinel ''https://x.test/''],
      e_interactions =
        \<lparr>clicks = [''[role="tab"] or .tab'', ''button:has-text("Load more")''],
         scrolls = 3,
         pages = [''https://x.test/'', ''https://x.test/page2'']\<rparr>,
      e_errors = [\<lparr>message = ''Static fetch failed: timeout'', phase = ''fetch''\<rparr>]\<rparr>\<close>




definition two_doc :: elem where
  "two_doc = document [Tag ''html'' [] [Tag ''body'' []
     [Tag ''header'' [] [Tag ''h1'' [] [Text ''Site'']],
      Tag ''main'' [] [Tag ''p'' [] [Text ''Welcome to the site'']]]]]"


definition two_doc_sections :: "section_rec list" where
  "two_doc_sections =
     [\<lparr>sec_id = ''nav-0'', sec_type = ''nav'', sec_label = ''Site'',
       sourceUrl = ''https://x.test/'',
       sec_content =
         \<lparr>headings = [''Site''], ctext = [], links = [], images = [], lists = [], tables = []\<rparr>,
       rawHtml = ''<header><h1>Site</h1></header>'', truncated = False\<rparr>,
      \<lparr>sec_id = ''section-1'', sec_type = ''section'', sec_label = ''Welcome to the site'',
       sourceUrl = ''https://x.test/'',
       sec_content =
         \<lparr>headings = [], ctext = ''Welcome to the site'', links = [], images = [],
          lists = [], tables = []\<rparr>,
       rawHtml = ''<main><p>Welcome to the site</p></main>'', truncated = False\<rparr>]"

definition first_meta :: page_meta where
  "first_meta = \<lparr>title = [], description = [], language = ''en'', canonical = None\<rparr>"

definition fetch_failed :: error_record where
  "fetch_failed = \<lparr>message = ''Static fetch failed: timeout'', phase = ''fetch''\<rparr>"

definition no_playwright :: error_record where
  "no_playwright =
     \<lparr>message = ''Playwright not available. Install with: pip install playwright && playwright install chromium'',
      phase = ''render''\<rparr>"

definition offline_envelope :: envelope where
  "offline_envelope =
     \<lparr>e_url = ''https://x.test/'', e_scrapedAt = ''2024-01-01T00:00:00+00:00'',
      e_meta = first_meta,
      e_sections = [sentinel ''https://x.test/''],
      e_interactions = \<lparr>clicks = [], scrolls = 0, pages = []\<rparr>,
      e_errors = [fetch_failed, no_playwright]\<rparr>"

definition two_doc_envelope :: envelope where
  "two_doc_envelope =
     \<lparr>e_url = ''https://x.test/'', e_scrapedAt = ''2024-01-01T00:00:00+00:00'',
      e_meta = first_meta,
      e_sections = two_doc_sections,
      e_interactions = \<lparr>clicks = [], scrolls = 0, pages = []\<rparr>,
      e_errors = [no_playwright]\<rparr>"










definition big_div :: "unit bs4" where
  "big_div =
     \<lparr>bs_select = (\<lambda>e css. []),
      bs_select_one = (\<lambda>e css. None),
      bs_parent = (\<lambda>e. None),
      bs_name = (\<lambda>e. Some ''div''),
      bs_get = (\<lambda>e a. None),
      bs_get_class = (\<lambda>e. None),
      bs_get_text = (\<lambda>e. replicate 6000 CHR ''x''),
      bs_str = (\<lambda>e. ''<div>'' @ replicate 6000 CHR ''x'' @ ''</div>'')\<rparr>"

definition big_div_section :: section_rec where
  "big_div_section =
     \<lparr>sec_id = ''unknown-0'', sec_type = ''unknown'', sec_label = ''Section'',
      sourceUrl = ''https://x.test/'',
      sec_content =
        \<lparr>headings = [], ctext = [], links = [], images = [], lists = [], tables = []\<rparr>,
      rawHtml = ''<div>'' @ replicate 4995 CHR ''x'' @ ''...'',
      truncated = True\<rparr>"


section \<open>Properties of the extraction of one section\<close>

lemma extract_links_ltext:
  "extract_links B uj u as acc = Inr ls \<Longrightarrow> list_all (\<lambda>l. length (ltext l) \<le> 100) acc
     \<Longrightarrow> list_all (\<lambda>l. length (ltext l) \<le> 100) ls"
  by (induction as arbitrary: acc) (auto split: option.splits sum.splits if_splits simp: Let_def)

lemma extract_section_Some:
  assumes "extract_section_from_element B uj (Some element) source_url n = Inr (Some sec)"
  obtains ls imgs where
    "extract_links B uj source_url (bs_select B element ''a'') [] = Inr ls"
    "extract_images B uj source_url (bs_select B element ''img'') [] = Inr imgs"
    "sec = \<lparr>sec_id = section_type_of B element @ ''-'' @ str_nat n,
            sec_type = section_type_of B element,
            sec_label = take 100 (section_label (filter (\<lambda>t. t \<noteq> [])
                   (map (bs_get_text B) (bs_select B element ''h1, h2, h3, h4, h5, h6'')))
                   (join '' '' (take 10 (extract_text_parts B element)))),
            sourceUrl = source_url,
            sec_content =
              \<lparr>headings = take 10 (filter (\<lambda>t. t \<noteq> [])
                   (map (bs_get_text B) (bs_select B element ''h1, h2, h3, h4, h5, h6''))),
               ctext = take 5000 (join '' '' (take 10 (extract_text_parts B element))),
               links = take 50 ls, images = take 20 imgs,
               lists = take 10 (extract_lists B element),
               tables = take 5 (extract_tables B element)\<rparr>,
            rawHtml = (if length (bs_str B element) > 5000
                       then take 5000 (bs_str B element) @ ''...'' else bs_str B element),
            truncated = (length (bs_str B element) > 5000)\<rparr>"
proof (cases "extract_links B uj source_url (bs_select B element ''a'') []")
  case (Inl e)
  with assms show ?thesis
    by (simp add: extract_section_from_element_def and_then_def Let_def)
next
  case L: (Inr ls)
  show ?thesis
  proof (cases "extract_images B uj source_url (bs_select B element ''img'') []")
    case (Inl e)
    with assms L show ?thesis
      by (simp add: extract_section_from_element_def and_then_def Let_def)
  next
    case I: (Inr imgs)
    from assms L I show ?thesis
      by (intro that[OF L I]) (simp add: extract_section_from_element_def and_then_def Let_def)
  qed
qed

lemma extract_section_type:
  assumes "extract_section_from_element B uj (Some element) source_url n = Inr (Some sec)"
  shows "sec_type sec = section_type_of B element"
    and "sec_id sec = section_type_of B element @ ''-'' @ str_nat n"
  using assms by (auto elim!: extract_section_Some)

lemma pricing_section_eval:
  "extract_section_from_element doc_bs4 sample_urljoin (Some (at_path pricing_doc [0, 0]))
     ''https://x.test/'' 0 = Inr (Some pricing_section)"
  by code_simp

lemma big_div_eval:
  "extract_section_from_element big_div sample_urljoin (Some ()) ''https://x.test/'' 0
     = Inr (Some big_div_section)"
proof -
  have "str_nat 0 = ''0''" "lower ''div'' = ''div''" "lower [] = []"
    by code_simp+
  then show ?thesis
    by (simp add: extract_section_from_element_def big_div_def big_div_section_def and_then_def
          section_type_of_def class_str_of_def extract_text_parts_def extract_lists_def
          extract_tables_def section_label_def Let_def)
qed

text \<open>
  Claim C2. Every section that the extraction of a region returns respects the caps:
  at most 10 headings, 50 links, 20 images, 10 lists and 5 tables, a text of at most
  5000 characters, link texts and the label of at most 100 characters, and a raw
  markup of at most 5000 characters plus the marker; \<open>truncated\<close> is true exactly
  when the region's serialized markup is longer than 5000 characters, and then the raw
  markup is its first 5000 characters followed by the marker (otherwise the markup
  itself).
\<close>

theorem section_caps:
  assumes "extract_section_from_element B uj (Some element) source_url n = Inr (Some sec)"
  shows "length (headings (sec_content sec)) \<le> 10
       \<and> length (links (sec_content sec)) \<le> 50
       \<and> length (images (sec_content sec)) \<le> 20
       \<and> length (lists (sec_content sec)) \<le> 10
       \<and> length (tables (sec_content sec)) \<le> 5
       \<and> length (ctext (sec_content sec)) \<le> 5000
       \<and> list_all (\<lambda>l. length (ltext l) \<le> 100) (links (sec_content sec))
       \<and> length (sec_label sec) \<le> 100
       \<and> length (rawHtml sec) \<le> 5000 + length ''...''
       \<and> (truncated sec \<longleftrightarrow> length (bs_str B element) > 5000)
       \<and> rawHtml sec = (if truncated sec then take 5000 (bs_str B element) @ ''...''
                        else bs_str B element)"
proof -
  from assms obtain ls imgs where
    L: "extract_links B uj source_url (bs_select B element ''a'') [] = Inr ls" and
    sec: "sec = \<lparr>sec_id = section_type_of B element @ ''-'' @ str_nat n,
            sec_type = section_type_of B element,
            sec_label = take 100 (section_label (filter (\<lambda>t. t \<noteq> [])
                   (map (bs_get_text B) (bs_select B element ''h1, h2, h3, h4, h5, h6'')))
                   (join '' '' (take 10 (extract_text_parts B element)))),
            sourceUrl = source_url,
            sec_content =
              \<lparr>headings = take 10 (filter (\<lambda>t. t \<noteq> [])
                   (map (bs_get_text B) (bs_select B element ''h1, h2, h3, h4, h5, h6''))),
               ctext = take 5000 (join '' '' (take 10 (extract_text_parts B element))),
               links = take 50 ls, images = take 20 imgs,
               lists = take 10 (extract_lists B element),
               tables = take 5 (extract_tables B element)\<rparr>,
            rawHtml = (if length (bs_str B element) > 5000
                       then take 5000 (bs_str B element) @ ''...'' else bs_str B element),
            truncated = (length (bs_str B element) > 5000)\<rparr>"
    by (rule extract_section_Some)
  have "list_all (\<lambda>l. length (ltext l) \<le> 100) ls"
    using extract_links_ltext[OF L] by simp
  then have "list_all (\<lambda>l. length (ltext l) \<le> 100) (take 50 ls)"
    by (auto simp: list_all_iff dest: in_set_takeD)
  with sec show ?thesis by simp
qed

theorem section_caps_witness:
  "extract_section_from_element doc_bs4 sample_urljoin (Some (at_path pricing_doc [0, 0]))
     ''https://x.test/'' 0 = Inr (Some pricing_section)
   \<and> length (headings (sec_content pricing_section)) \<le> 10
   \<and> length (links (sec_content pricing_section)) \<le> 50
   \<and> list_all (\<lambda>l. length (ltext l) \<le> 100) (links (sec_content pricing_section))
   \<and> length (sec_label pricing_section) \<le> 100
   \<and> length (rawHtml pricing_section) \<le> 5000 + length ''...''
   \<and> (truncated pricing_section
        \<longleftrightarrow> length (bs_str doc_bs4 (at_path pricing_doc [0, 0])) > 5000)
   \<and> extract_section_from_element big_div sample_urljoin (Some ()) ''https://x.test/'' 0
        = Inr (Some big_div_section)
   \<and> length (bs_str big_div ()) = 6011
   \<and> truncated big_div_section
   \<and> rawHtml big_div_section = take 5000 (bs_str big_div ()) @ ''...''
   \<and> length (rawHtml big_div_section) = 5003"
  using section_caps[OF pricing_section_eval] pricing_section_eval
    section_caps[OF big_div_eval] big_div_eval
  by (simp add: big_div_def big_div_section_def)

text \<open>
  Claim C3, as amended. The class attribute is tested for hero, then faq, then pricing
  in an \<^verbatim>\<open>if\<close>/\<^verbatim>\<open>elif\<close> chain, so the first match wins: a class containing "hero"
  gives the type hero whatever else it contains, one containing "faq" and not "hero"
  gives faq, and pricing needs a class containing neither; without a match the type
  is the tag's.
\<close>

theorem class_override_first_match:
  assumes "extract_section_from_element B uj (Some element) source_url n = Inr (Some sec)"
  shows "(if contains ''hero'' (lower (class_str_of B element)) then sec_type sec = ''hero''
          else if contains ''faq'' (lower (class_str_of B element)) then sec_type sec = ''faq''
          else if contains ''pricing'' (lower (class_str_of B element)) then sec_type sec = ''pricing''
          else sec_type sec \<in> {''nav'', ''footer'', ''section'', ''unknown''})"
  using extract_section_type(1)[OF assms]
  by (simp add: section_type_of_def Let_def)

theorem class_override_first_match_witness:
  "extract_section_from_element doc_bs4 sample_urljoin (Some (at_path pricing_doc [0, 0]))
     ''https://x.test/'' 0 = Inr (Some pricing_section)
   \<and> contains ''hero'' (lower (class_str_of doc_bs4 (at_path pricing_doc [0, 0])))
   \<and> sec_type pricing_section = ''hero''"
proof -
  have c: "contains ''hero'' (lower (class_str_of doc_bs4 (at_path pricing_doc [0, 0])))"
    by code_simp
  show ?thesis
    using class_override_first_match[OF pricing_section_eval] pricing_section_eval c by simp
qed

text \<open>
  The claim as stated (last match wins, so that a class with all three substrings
  gives pricing) fails on \<^verbatim>\<open><section class="hero faq pricing">\<close>: the type is hero.
\<close>

theorem class_override_last_match_counterexample:
  "contains ''hero'' (lower (class_str_of doc_bs4 (at_path pricing_doc [0, 0])))
   \<and> contains ''faq'' (lower (class_str_of doc_bs4 (at_path pricing_doc [0, 0])))
   \<and> contains ''pricing'' (lower (class_str_of doc_bs4 (at_path pricing_doc [0, 0])))
   \<and> extract_section_from_element doc_bs4 sample_urljoin (Some (at_path pricing_doc [0, 0]))
        ''https://x.test/'' 0 = Inr (Some pricing_section)
   \<and> sec_type pricing_section = ''hero''
   \<and> sec_type pricing_section \<noteq> ''pricing''"
proof -
  have "contains ''hero'' (lower (class_str_of doc_bs4 (at_path pricing_doc [0, 0])))"
    and "contains ''faq'' (lower (class_str_of doc_bs4 (at_path pricing_doc [0, 0])))"
    and "contains ''pricing'' (lower (class_str_of doc_bs4 (at_path pricing_doc [0, 0])))"
    by code_simp+
  moreover have "sec_type pricing_section = ''hero''"
    by (simp add: pricing_section_def)
  ultimately show ?thesis
    using pricing_section_eval by simp
qed

section \<open>Decimal ordinals\<close>

lemma digit_char_neq_dash: "d < 10 \<Longrightarrow> digit_char d \<noteq> CHR ''-''"
proof
  assume d: "d < 10" and "digit_char d = CHR ''-''"
  then have "of_char (char_of (48 + d) :: char) = (of_char CHR ''-'' :: nat)"
    by (simp add: digit_char_def)
  with d show False by simp
qed

lemma digit_char_inj: "a < 10 \<Longrightarrow> b < 10 \<Longrightarrow> digit_char a = digit_char b \<Longrightarrow> a = b"
proof -
  assume a: "a < 10" and b: "b < 10" and "digit_char a = digit_char b"
  then have "of_char (char_of (48 + a) :: char) = (of_char (char_of (48 + b) :: char) :: nat)"
    by (simp add: digit_char_def)
  with a b show ?thesis by simp
qed

lemma str_nat_no_dash: "CHR ''-'' \<notin> set (str_nat n)"
proof (induction n rule: str_nat.induct)
  case (1 n)
  show ?case
  proof (cases "n < 10")
    case True
    then show ?thesis
      using digit_char_neq_dash[of n] by (subst str_nat.simps) auto
  next
    case False
    then show ?thesis
      using 1 digit_char_neq_dash[of "n mod 10"] by (subst str_nat.simps) auto
  qed
qed

lemma str_nat_nonempty: "str_nat m \<noteq> []"
  by (subst str_nat.simps) simp

lemma str_nat_length_one: "length (str_nat n) = 1 \<longleftrightarrow> n < 10"
proof (cases "n < 10")
  case True
  then show ?thesis by (subst str_nat.simps) simp
next
  case False
  have "length (str_nat n) = Suc (length (str_nat (n div 10)))"
    using False by (subst str_nat.simps) simp
  moreover have "length (str_nat (n div 10)) \<noteq> 0"
    using str_nat_nonempty by simp
  ultimately show ?thesis using False by simp
qed

lemma str_nat_inj: "str_nat a = str_nat b \<Longrightarrow> a = b"
proof (induction a arbitrary: b rule: str_nat.induct)
  case (1 a)
  have small: "a < 10 \<longleftrightarrow> b < 10"
    using arg_cong[OF 1(2), of length] str_nat_length_one[of a] str_nat_length_one[of b] by simp
  show ?case
  proof (cases "a < 10")
    case True
    with small have b: "b < 10" by simp
    have "[digit_char a] = [digit_char b]"
      using 1(2) True b by (simp add: str_nat.simps[of a] str_nat.simps[of b])
    then show ?thesis
      using digit_char_inj[OF True b] by simp
  next
    case False
    with small have nb: "\<not> b < 10" by simp
    have "str_nat (a div 10) @ [digit_char (a mod 10)] = str_nat (b div 10) @ [digit_char (b mod 10)]"
      using 1(2) False nb by (simp add: str_nat.simps[of a] str_nat.simps[of b])
    then have e1: "str_nat (a div 10) = str_nat (b div 10)"
      and e2: "digit_char (a mod 10) = digit_char (b mod 10)"
      by simp_all
    have "a div 10 = b div 10"
      using 1(1)[OF False e1] .
    moreover have "a mod 10 = b mod 10"
      using digit_char_inj[OF _ _ e2] by simp
    ultimately show ?thesis by (metis div_mult_mod_eq)
  qed
qed

lemma takeWhile_until_dash:
  "CHR ''-'' \<notin> set xs \<Longrightarrow> takeWhile (\<lambda>c. c \<noteq> CHR ''-'') (xs @ CHR ''-'' # ys) = xs"
  by (induction xs) auto

lemma section_id_inj:
  assumes "t1 @ ''-'' @ str_nat a = t2 @ ''-'' @ str_nat b"
  shows "a = b"
proof -
  have "\<And>t n. takeWhile (\<lambda>c. c \<noteq> CHR ''-'') (rev (t @ ''-'' @ str_nat n)) = rev (str_nat n)"
    using str_nat_no_dash by (simp add: takeWhile_until_dash)
  then have "rev (str_nat a) = rev (str_nat b)"
    using assms by metis
  then show ?thesis using str_nat_inj by simp
qed


section \<open>Properties of the segmentation\<close>

lemma extract_section_not_None:
  "extract_section_from_element B uj (Some element) source_url n \<noteq> Inr None"
  by (simp add: extract_section_from_element_def and_then_def Let_def split: sum.splits)

lemma extract_all_length:
  "extract_all B uj u rs k = Inr secs \<Longrightarrow> length secs = length rs"
  by (induction rs arbitrary: k secs)
     (auto split: sum.splits option.splits simp: extract_section_not_None)

lemma landmark_loop_eq:
  "landmark_loop B uj u ls secs k =
     (case extract_all B uj u
             (filter (\<lambda>l. \<not> any_in [''cookie'', ''banner'', ''modal'', ''popup''] (lower (bs_str B l))) ls) k of
        Inl e \<Rightarrow> Inl e
      | Inr new \<Rightarrow> Inr (secs @ new, k + length new))"
proof (induction ls arbitrary: secs k)
  case Nil
  show ?case by simp
next
  case (Cons l ls)
  show ?case
  proof (cases "any_in [''cookie'', ''banner'', ''modal'', ''popup''] (lower (bs_str B l))")
    case True
    then show ?thesis using Cons.IH by simp
  next
    case False
    show ?thesis
    proof (cases "extract_section_from_element B uj (Some l) u k")
      case (Inl e)
      with False show ?thesis by simp
    next
      case (Inr r)
      then obtain sec where r: "r = Some sec"
        using extract_section_not_None[of B uj l u k] by (cases r) auto
      show ?thesis
        using False Inr r Cons.IH[of "secs @ [sec]" "k + 1"]
        by (simp split: sum.splits)
    qed
  qed
qed

lemma heading_loop_eq:
  "heading_loop B uj u hs secs k =
     (case extract_all B uj u
             (filter (\<lambda>p. \<not> any_in [''cookie'', ''banner'', ''modal''] (lower (bs_str B p)))
                (concat (map (\<lambda>h. case bs_parent B h of None \<Rightarrow> [] | Some p \<Rightarrow> [p]) hs))) k of
        Inl e \<Rightarrow> Inl e
      | Inr new \<Rightarrow> Inr (secs @ new, k + length new))"
proof (induction hs arbitrary: secs k)
  case Nil
  show ?case by simp
next
  case (Cons h hs)
  show ?case
  proof (cases "bs_parent B h")
    case None
    then show ?thesis using Cons.IH by simp
  next
    case (Some p)
    show ?thesis
    proof (cases "any_in [''cookie'', ''banner'', ''modal''] (lower (bs_str B p))")
      case True
      then show ?thesis using Some Cons.IH by simp
    next
      case False
      show ?thesis
      proof (cases "extract_section_from_element B uj (Some p) u k")
        case (Inl e)
        with False Some show ?thesis by simp
      next
        case (Inr r)
        then obtain sec where r: "r = Some sec"
          using extract_section_not_None[of B uj p u k] by (cases r) auto
        show ?thesis
          using False Some Inr r Cons.IH[of "secs @ [sec]" "k + 1"]
          by (simp split: sum.splits)
      qed
    qed
  qed
qed

lemma first_tier_then_body:
  assumes "loop = (case extract_all B uj u rs 0 of Inl e \<Rightarrow> Inl e | Inr new \<Rightarrow> Inr ([] @ new, 0 + length new))"
  shows "and_then loop
           (\<lambda>(secs, section_id_counter).
              if secs = []
              then (case bs_select_one B parser ''body'' of
                      None \<Rightarrow> Inr secs
                    | Some body \<Rightarrow>
                        and_then
                          (extract_section_from_element B uj (Some body) u section_id_counter)
                          (\<lambda>r. case r of None \<Rightarrow> Inr secs | Some sec \<Rightarrow> Inr (secs @ [sec])))
              else Inr secs)
         = extract_all B uj u (if rs = [] then body_regions B parser else rs) 0"
proof (cases "extract_all B uj u rs 0")
  case (Inl e)
  then have "rs \<noteq> []" by (cases rs) auto
  with Inl assms show ?thesis by (simp add: and_then_def)
next
  case (Inr new)
  show ?thesis
  proof (cases "rs = []")
    case True
    with Inr have "new = []" by simp
    with True Inr assms show ?thesis
      by (simp add: and_then_def body_regions_def split: option.splits sum.splits)
  next
    case False
    with Inr have "new \<noteq> []" using extract_all_length[OF Inr] by auto
    with False Inr assms show ?thesis by (simp add: and_then_def)
  qed
qed

lemma extract_sections_eq:
  "extract_sections B uj parser u = extract_all B uj u (segment_regions B parser) 0"
proof (cases "bs_select B parser ''header, nav, main, section, footer, article'' = []")
  case True
  show ?thesis
    unfolding extract_sections_def Let_def
    using True first_tier_then_body[OF heading_loop_eq[of B uj u "bs_select B parser ''h1, h2, h3''" "[]" 0], of parser]
    by (simp add: segment_regions_def heading_regions_def)
next
  case False
  show ?thesis
    unfolding extract_sections_def Let_def
    using False first_tier_then_body[OF landmark_loop_eq[of B uj u "bs_select B parser ''header, nav, main, section, footer, article''" "[]" 0], of parser]
    by (simp add: segment_regions_def landmark_regions_def)
qed

lemma extract_all_ids:
  "extract_all B uj u rs k = Inr secs \<Longrightarrow>
     map sec_id secs = map2 (\<lambda>i sec. sec_type sec @ ''-'' @ str_nat i) [k..<k + length secs] secs"
proof (induction rs arbitrary: k secs)
  case Nil
  then show ?case by simp
next
  case (Cons r rs)
  from Cons.prems obtain sec rest where
    r: "extract_section_from_element B uj (Some r) u k = Inr (Some sec)" and
    rest: "extract_all B uj u rs (k + 1) = Inr rest" and
    secs: "secs = sec # rest"
    by (auto split: sum.splits option.splits simp: extract_section_not_None)
  have "[k..<k + length secs] = k # [k + 1..<k + 1 + length rest]"
    using secs by (simp add: upt_rec)
  then show ?case
    using Cons.IH[OF rest] secs extract_section_type[OF r] by simp
qed

lemma ordinal_ids_distinct:
  assumes "map sec_id secs = map2 (\<lambda>i sec. sec_type sec @ ''-'' @ str_nat i) [k..<k + length secs] secs"
  shows "distinct (map sec_id secs)"
proof -
  have nth: "\<And>i. i < length secs \<Longrightarrow> map sec_id secs ! i = sec_type (secs ! i) @ ''-'' @ str_nat (k + i)"
    by (subst assms) simp
  show ?thesis
  proof (subst distinct_conv_nth, intro allI impI)
    fix i j
    assume i: "i < length (map sec_id secs)" and j: "j < length (map sec_id secs)" and ne: "i \<noteq> j"
    show "map sec_id secs ! i \<noteq> map sec_id secs ! j"
    proof
      assume "map sec_id secs ! i = map sec_id secs ! j"
      then have "sec_type (secs ! i) @ ''-'' @ str_nat (k + i) = sec_type (secs ! j) @ ''-'' @ str_nat (k + j)"
        using nth i j by simp
      then have "k + i = k + j" by (rule section_id_inj)
      with ne show False by simp
    qed
  qed
qed

text \<open>
  Claim C4, as amended. The method extracts, with the ordinals 0, 1, 2, ..., the
  regions of exactly one tier. The heading tier is entered exactly when the document
  has no landmark element at all (\<^verbatim>\<open>if not landmarks\<close>, tested before the denylist);
  when landmark elements exist the landmark tier runs. The body tier is used exactly
  when the tier that ran kept no region; so a document whose landmark elements are all
  denylisted goes to the body tier, and its headings are never looked at.
\<close>

theorem segmentation_tiers:
  "extract_sections B uj parser u =
     extract_all B uj u
       (if bs_select B parser ''header, nav, main, section, footer, article'' = []
        then (if heading_regions B parser = [] then body_regions B parser
              else heading_regions B parser)
        else (if landmark_regions B parser = [] then body_regions B parser
              else landmark_regions B parser)) 0"
  using extract_sections_eq[of B uj parser u] by (simp add: segment_regions_def)

text \<open>
  The claim as stated (the heading tier runs whenever the landmark tier yields no
  region) fails on a page whose only landmark is \<^verbatim>\<open><header class="cookie">\<close>, next to
  \<^verbatim>\<open><div><h1>Title</h1></div>\<close>: the landmark tier yields nothing, the heading tier
  would yield the \<^verbatim>\<open>div\<close>, and the section returned is the one of \<^verbatim>\<open><body>\<close>.
\<close>

theorem heading_tier_after_denied_landmarks_counterexample:
  "bs_select doc_bs4 cookie_doc ''header, nav, main, section, footer, article''
     = [at_path cookie_doc [0, 0, 0]]
   \<and> landmark_regions doc_bs4 cookie_doc = []
   \<and> heading_regions doc_bs4 cookie_doc = [at_path cookie_doc [0, 0, 1]]
   \<and> body_regions doc_bs4 cookie_doc = [at_path cookie_doc [0, 0]]
   \<and> extract_sections doc_bs4 sample_urljoin cookie_doc ''https://x.test/''
       = Inr [cookie_body_section]"
  by code_simp

text \<open>
  Claim C5 at two pages. The landmark loop tests four substrings (not "overlay"), the
  heading loop three (neither "popup" nor "overlay"): a landmark
  \<^verbatim>\<open><section class="overlay">\<close> and a heading's parent \<^verbatim>\<open><div class="popup">\<close> both
  contain a substring of the five-word denylist and are extracted all the same.
\<close>

theorem denylist_misses_overlay_and_popup:
  "any_in [''cookie'', ''banner'', ''modal'', ''popup'', ''overlay'']
     (lower (bs_str doc_bs4 (at_path overlay_doc [0, 0])))
   \<and> landmark_regions doc_bs4 overlay_doc = [at_path overlay_doc [0, 0]]
   \<and> extract_sections doc_bs4 sample_urljoin overlay_doc ''https://x.test/''
       = Inr [overlay_section]
   \<and> any_in [''cookie'', ''banner'', ''modal'', ''popup'', ''overlay'']
        (lower (bs_str doc_bs4 (at_path popup_doc [0, 0])))
   \<and> heading_regions doc_bs4 popup_doc = [at_path popup_doc [0, 0]]
   \<and> extract_sections doc_bs4 sample_urljoin popup_doc ''https://x.test/''
       = Inr [popup_section]"
  by code_simp

section \<open>Properties of the interaction driver\<close>

lemma log_grows_refl: "log_grows 0 0 0 s s"
  by (simp add: log_grows_def)

lemma log_grows_trans:
  "log_grows a b c s s' \<Longrightarrow> log_grows a' b' c' s' s'' \<Longrightarrow> log_grows (a + a') (b + b') (c + c') s s''"
  unfolding log_grows_def by (auto intro: prefix_order.trans)

lemma log_grows_mono:
  "log_grows a b c s s' \<Longrightarrow> a \<le> a' \<Longrightarrow> b \<le> b' \<Longrightarrow> c \<le> c' \<Longrightarrow> log_grows a' b' c' s s'"
  unfolding log_grows_def by auto

lemma page_op_grows: "page_op f s = (r, s') \<Longrightarrow> log_grows 0 0 0 s s'"
  by (auto simp: page_op_def log_grows_def split: prod.splits)

lemma append_click_grows: "log_grows 1 0 0 s (append_click sel s)"
  by (simp add: append_click_def log_grows_def)

lemma incr_scrolls_grows: "log_grows 0 0 1 s (incr_scrolls s)"
  by (simp add: incr_scrolls_def log_grows_def)

lemma visit_page_grows: "log_grows 0 1 0 s (visit_page u s)"
  by (simp add: visit_page_def log_grows_def)

lemma append_error_grows: "log_grows 0 0 0 s (append_error msg ph s)"
  by (simp add: append_error_def log_grows_def)

lemma click_first_tab_grows: "log_grows 1 0 0 s (click_first_tab P tab s)"
proof (cases "page_op (pw_click P tab) s")
  case (Pair r s1)
  note g1 = page_op_grows[OF Pair]
  show ?thesis
  proof (cases r)
    case (Inl e)
    with Pair g1 show ?thesis
      by (auto simp: click_first_tab_def intro: log_grows_mono)
  next
    case (Inr x)
    obtain r2 s2 where w: "page_op (pw_wait_for_timeout P 1000) (append_click ''[role=\"tab\"] or .tab'' s1) = (r2, s2)"
      by (cases "page_op (pw_wait_for_timeout P 1000) (append_click ''[role=\"tab\"] or .tab'' s1)")
    have "log_grows (0 + 1 + 0) (0 + 0 + 0) (0 + 0 + 0) s s2"
      by (rule log_grows_trans[OF log_grows_trans[OF g1 append_click_grows] page_op_grows[OF w]])
    with Pair Inr w show ?thesis
      by (cases r2) (simp_all add: click_first_tab_def)
  qed
qed

lemma load_more_loop_grows: "log_grows (length sels) 0 0 s (load_more_loop P sels s)"
proof (induction sels arbitrary: s)
  case Nil
  show ?case by (simp add: log_grows_refl)
next
  case (Cons sel rest)
  obtain r1 s1 where q: "page_op (pw_query_selector P sel) s = (r1, s1)"
    by (cases "page_op (pw_query_selector P sel) s")
  note g1 = page_op_grows[OF q]
  have skip: "\<And>t. log_grows 0 0 0 s t \<Longrightarrow> log_grows (length (sel # rest)) 0 0 s (load_more_loop P rest t)"
    using log_grows_trans[OF _ Cons.IH] by (fastforce intro: log_grows_mono)
  show ?case
  proof (cases r1)
    case (Inl e)
    with q skip[OF g1] show ?thesis by simp
  next
    case (Inr b)
    show ?thesis
    proof (cases b)
      case None
      with q Inr skip[OF g1] show ?thesis by simp
    next
      case (Some button)
      obtain r2 s2 where c: "page_op (pw_click P button) s1 = (r2, s2)"
        by (cases "page_op (pw_click P button) s1")
      have g2: "log_grows 0 0 0 s s2"
        using log_grows_trans[OF g1 page_op_grows[OF c]] by simp
      show ?thesis
      proof (cases r2)
        case (Inl e)
        with q Inr Some c skip[OF g2] show ?thesis by simp
      next
        case Inr2: (Inr x)
        obtain r3 s3 where w: "page_op (pw_wait_for_timeout P 2000) (append_click sel s2) = (r3, s3)"
          by (cases "page_op (pw_wait_for_timeout P 2000) (append_click sel s2)")
        have g3: "log_grows 1 0 0 s s3"
          using log_grows_trans[OF log_grows_trans[OF g2 append_click_grows] page_op_grows[OF w]] by simp
        show ?thesis
        proof (cases r3)
          case (Inl e)
          have "log_grows (1 + length rest) (0 + 0) (0 + 0) s (load_more_loop P rest s3)"
            by (rule log_grows_trans[OF g3 Cons.IH])
          with q Inr Some c Inr2 w Inl show ?thesis by simp
        next
          case Inr3: (Inr y)
          have "log_grows (length (sel # rest)) 0 0 s s3"
            using g3 by (rule log_grows_mono) simp_all
          with q Inr Some c Inr2 w Inr3 show ?thesis by simp
        qed
      qed
    qed
  qed
qed


lemma page_op_eq:
  "page_op f s = (r, s') \<Longrightarrow>
     interactions s' = interactions s \<and> errors s' = errors s \<and> url s' = url s
     \<and> js_scrape_calls s' = js_scrape_calls s \<and> visited_urls s' = visited_urls s \<and> meta s' = meta s"
  by (auto simp: page_op_def split: prod.splits)

lemma log_grows_cong:
  "interactions t = interactions s \<Longrightarrow> errors t = errors s \<Longrightarrow> url t = url s
     \<Longrightarrow> js_scrape_calls t = js_scrape_calls s \<Longrightarrow> log_grows a b c t s' \<Longrightarrow> log_grows a b c s s'"
  by (simp add: log_grows_def)

lemma page_op_then:
  "page_op f s = (r, s1) \<Longrightarrow> log_grows a b c s1 s' \<Longrightarrow> log_grows a b c s s'"
  using page_op_eq[of f s r s1] by (auto intro: log_grows_cong)

lemma handle_interactions_grows: "log_grows 6 0 0 s (handle_interactions P s)"
proof -
  obtain r s1 where q: "page_op (pw_query_selector_all P ''[role=\"tab\"], .tab, [class*=\"tab\"]'') s = (r, s1)"
    by (cases "page_op (pw_query_selector_all P ''[role=\"tab\"], .tab, [class*=\"tab\"]'') s")
  show ?thesis
  proof (cases r)
    case (Inl e)
    have "log_grows 6 0 0 s1 (append_error (''Interaction handling failed: '' @ e) ''interaction'' s1)"
      by (rule log_grows_mono[OF append_error_grows]) simp_all
    with q Inl show ?thesis
      by (simp add: handle_interactions_def page_op_then[OF q])
  next
    case (Inr tabs)
    define s2 where "s2 = (case tabs of [] \<Rightarrow> s1 | tab # _ \<Rightarrow> click_first_tab P tab s1)"
    have "log_grows 1 0 0 s1 s2"
      unfolding s2_def using click_first_tab_grows log_grows_mono[OF log_grows_refl]
      by (cases tabs) auto
    moreover have "length load_more_selectors = 5"
      by (simp add: load_more_selectors_def)
    ultimately have "log_grows 6 0 0 s1 (load_more_loop P load_more_selectors s2)"
      using log_grows_trans[OF _ load_more_loop_grows[of load_more_selectors s2 P], of 1 0 0 s1]
      by simp
    with q Inr show ?thesis
      by (simp add: handle_interactions_def s2_def page_op_then[OF q])
  qed
qed


lemma pagination_loop_grows: "log_grows 0 (Suc 0) 0 s (pagination_loop P uj sels s)"
proof (induction sels arbitrary: s)
  case Nil
  show ?case by (simp add: log_grows_mono[OF log_grows_refl])
next
  case (Cons sel rest)
  have stop: "\<And>t u. log_grows 0 (Suc 0) 0 t (visit_page u t)"
    using visit_page_grows by simp
  have step: "\<And>f t r t' x. page_op f t = (r, t') \<Longrightarrow> log_grows 0 (Suc 0) 0 t' x \<Longrightarrow> log_grows 0 (Suc 0) 0 t x"
    by (rule page_op_then)
  show ?case
    apply (simp split: prod.splits sum.splits option.splits)
    apply (intro allI impI conjI)
    apply (blast intro: step Cons.IH stop)+
    done
qed

lemma grows_byD: "grows_by a b c m \<Longrightarrow> m s = (r, s') \<Longrightarrow> log_grows a b c s s'"
  by (simp add: grows_by_def)

lemma grows_by_seq:
  assumes m: "grows_by a b c m" and f: "\<And>x. grows_by a' b' c' (f x)"
  shows "grows_by (a + a') (b + b') (c + c') (seq m f)"
  unfolding grows_by_def
proof (intro allI impI)
  fix s r s'
  assume run: "seq m f s = (r, s')"
  obtain r1 s1 where m1: "m s = (r1, s1)" by (cases "m s")
  note g1 = grows_byD[OF m m1]
  show "log_grows (a + a') (b + b') (c + c') s s'"
  proof (cases r1)
    case (Inl e)
    with run m1 have "s' = s1" by (simp add: seq_def)
    with g1 show ?thesis by (auto intro: log_grows_mono)
  next
    case (Inr x)
    with run m1 have "f x s1 = (r, s')" by (simp add: seq_def)
    from log_grows_trans[OF g1 grows_byD[OF f this]] show ?thesis .
  qed
qed

lemma grows_by_page_op: "grows_by 0 0 0 (page_op f)"
  by (auto simp: grows_by_def intro: page_op_grows)

lemma grows_by_ret: "grows_by 0 0 0 (ret x)"
  by (simp add: grows_by_def ret_def log_grows_refl)

lemma grows_by_update: "(\<And>s. log_grows a b c s (g s)) \<Longrightarrow> grows_by a b c (update g)"
  by (simp add: grows_by_def update_def)

lemma grows_by_mono:
  "grows_by a b c m \<Longrightarrow> a \<le> a' \<Longrightarrow> b \<le> b' \<Longrightarrow> c \<le> c' \<Longrightarrow> grows_by a' b' c' m"
  unfolding grows_by_def by (blast intro: log_grows_mono)

lemma pagination_step_grows:
  "grows_by 0 (if i = (0::nat) then 1 else 0) 0
     (if ch = nh \<and> i = 0 then update (pagination_loop P uj next_links) else ret ())"
  using grows_by_update[of 0 "Suc 0" 0 "pagination_loop P uj next_links", OF pagination_loop_grows]
        grows_by_ret[of "()"]
  by (auto intro: grows_by_mono)

lemma scroll_round_grows:
  "grows_by 0 (if i = 0 then 1 else 0) 1 (scroll_round P uj i)"
proof -
  have "grows_by (0 + (0 + (0 + (0 + (0 + (0 + 0)))))) (0 + (0 + (0 + (0 + (0 + (0 + (if i = 0 then 1 else 0)))))))
          (0 + (1 + (0 + (0 + (0 + (0 + 0)))))) (scroll_round P uj i)"
    unfolding scroll_round_def
    by (intro grows_by_seq grows_by_page_op grows_by_update incr_scrolls_grows pagination_step_grows)
  then show ?thesis by simp
qed

lemma scroll_loop_Cons:
  "scroll_loop P uj (i # rest) = seq (scroll_round P uj i) (\<lambda>_. scroll_loop P uj rest)"
  by (rule ext) (simp add: seq_def split: prod.splits sum.splits)

lemma scroll_loop_grows:
  "grows_by 0 (length (filter (\<lambda>i. i = 0) rounds)) (length rounds) (scroll_loop P uj rounds)"
proof (induction rounds)
  case Nil
  show ?case by (simp add: grows_by_def log_grows_refl)
next
  case (Cons i rest)
  have "grows_by (0 + 0) ((if i = 0 then 1 else 0) + length (filter (\<lambda>i. i = 0) rest)) (1 + length rest)
          (seq (scroll_round P uj i) (\<lambda>_. scroll_loop P uj rest))"
    by (intro grows_by_seq scroll_round_grows Cons.IH)
  then show ?case unfolding scroll_loop_Cons by (rule grows_by_mono) auto
qed

lemma more_scrolling_Suc:
  "more_scrolling P (Suc k) =
     seq (page_op (pw_evaluate P ''window.scrollTo(0, document.body.scrollHeight)'')) (\<lambda>_.
     seq (update incr_scrolls) (\<lambda>_.
     seq (page_op (pw_wait_for_timeout P 1500)) (\<lambda>_. more_scrolling P k)))"
  by (rule ext) (simp add: seq_def update_def split: prod.splits sum.splits)

lemma more_scrolling_grows: "grows_by 0 0 k (more_scrolling P k)"
proof (induction k)
  case 0
  show ?case by (simp add: grows_by_def log_grows_refl)
next
  case (Suc k)
  have "grows_by (0 + (0 + (0 + 0))) (0 + (0 + (0 + 0))) (0 + (1 + (0 + k)))
          (more_scrolling P (Suc k))"
    unfolding more_scrolling_Suc
    by (intro grows_by_seq grows_by_page_op grows_by_update incr_scrolls_grows Suc.IH)
  then show ?case by (rule grows_by_mono) simp_all
qed

lemma handle_scroll_and_pagination_grows:
  "log_grows 0 1 3 s (handle_scroll_and_pagination P uj s)"
proof -
  obtain r1 s1 where l: "scroll_loop P uj [0, 1, 2] s = (r1, s1)"
    by (cases "scroll_loop P uj [0, 1, 2] s")
  have g1: "log_grows 0 1 3 s s1"
    by (rule log_grows_mono[OF grows_byD[OF scroll_loop_grows l]]) simp_all
  have err: "\<And>e t. log_grows 0 1 3 s t \<Longrightarrow> log_grows 0 1 3 s (append_error e ''scroll'' t)"
    using log_grows_trans[OF _ append_error_grows] by fastforce
  show ?thesis
  proof (cases r1)
    case (Inl e)
    with l err[OF g1] show ?thesis
      by (simp add: handle_scroll_and_pagination_def seq_def)
  next
    case (Inr x)
    show ?thesis
    proof (cases "length (pages (interactions s1)) < 3 \<and> scrolls (interactions s1) < 3")
      case False
      with l Inr g1 show ?thesis
        by (auto simp: handle_scroll_and_pagination_def seq_def)
    next
      case True
      obtain r2 s2 where m: "more_scrolling P (3 - scrolls (interactions s1)) s1 = (r2, s2)"
        by (cases "more_scrolling P (3 - scrolls (interactions s1)) s1")
      note g2 = grows_byD[OF more_scrolling_grows m]
      have "log_grows 0 1 3 s s2"
        using g1 g2 True unfolding log_grows_def by (auto intro: prefix_order.trans)
      with l Inr True m err[of s2] show ?thesis
        by (cases r2) (simp_all add: handle_scroll_and_pagination_def seq_def)
    qed
  qed
qed

lemma grows_by_call: "grows_by 0 0 0 (call f)"
  by (simp add: grows_by_def call_def log_grows_refl)

lemma meta_update_grows: "log_grows 0 0 0 s (s\<lparr>meta := m\<rparr>)"
  by (simp add: log_grows_def)

lemma js_scrape_after_goto_grows:
  assumes hi: "\<And>s. log_grows a 0 0 s (handle_interactions (pw E) s)"
  shows "grows_by a 1 3 (js_scrape_after_goto E)"
proof -
  have "grows_by (0 + (a + (0 + (0 + (0 + (0 + (0 + (0 + 0))))))))
                 (0 + (0 + (1 + (0 + (0 + (0 + (0 + (0 + 0))))))))
                 (0 + (0 + (3 + (0 + (0 + (0 + (0 + (0 + 0))))))))
                 (js_scrape_after_goto E)"
    unfolding js_scrape_after_goto_def
    apply (rule grows_by_seq, rule grows_by_page_op)
    apply (rule grows_by_seq, rule grows_by_update, rule hi)
    apply (rule grows_by_seq, rule grows_by_update, rule handle_scroll_and_pagination_grows)
    apply (rule grows_by_seq, rule grows_by_page_op)
    apply (rule grows_by_seq, rule grows_by_call)
    apply (rule grows_by_seq, rule grows_by_update, rule meta_update_grows)
    apply (rule grows_by_seq, rule grows_by_call)
    apply (rule grows_by_seq, rule grows_by_page_op)
    apply (rule grows_by_ret)
    done
  then show ?thesis by (rule grows_by_mono) simp_all
qed

lemma js_scrape_try_grows:
  assumes hi: "\<And>s. log_grows a 0 0 s (handle_interactions (pw E) s)"
    and run: "js_scrape_try E s0 = (r, s')"
  shows "log_grows a 2 3 s0 s'"
proof -
  have chain: "grows_by (0 + (0 + a)) (0 + (1 + 1)) (0 + (0 + 3))
     (seq (page_op (pw_goto (pw E) (url s0))) (\<lambda>_.
      seq (update (\<lambda>s. visit_page (url s) s)) (\<lambda>_.
        js_scrape_after_goto E)))"
    apply (rule grows_by_seq, rule grows_by_page_op)
    apply (rule grows_by_seq, rule grows_by_update, rule visit_page_grows)
    apply (rule js_scrape_after_goto_grows[OF hi])
    done
  note run' = run[unfolded js_scrape_try_def]
  note g = grows_byD[where s = s0 and r = r and s' = s', OF chain run']
  show ?thesis
    by (rule log_grows_mono[OF g]) simp_all
qed

text \<open>The pages recorded by the render path start with the seed URL.\<close>

lemma js_scrape_try_pages:
  assumes run: "js_scrape_try E s0 = (r, s')"
  shows "pages (interactions s') = pages (interactions s0)
         \<or> prefix (pages (interactions s0) @ [url s0]) (pages (interactions s'))"
proof -
  obtain r1 s1 where g: "page_op (pw_goto (pw E) (url s0)) s0 = (r1, s1)"
    by (cases "page_op (pw_goto (pw E) (url s0)) s0")
  note e1 = page_op_eq[OF g]
  show ?thesis
  proof (cases r1)
    case (Inl e)
    with run g have "s' = s1" by (simp add: js_scrape_try_def seq_def)
    with e1 show ?thesis by simp
  next
    case (Inr x)
    with run g have t: "js_scrape_after_goto E (visit_page (url s1) s1) = (r, s')"
      by (simp add: js_scrape_try_def seq_def update_def)
    have "log_grows 6 1 3 (visit_page (url s1) s1) s'"
      using grows_byD[where s = "visit_page (url s1) s1" and r = r and s' = s',
                      OF js_scrape_after_goto_grows[of 6 E, OF handle_interactions_grows] t] .
    then have "prefix (pages (interactions (visit_page (url s1) s1))) (pages (interactions s'))"
      by (simp add: log_grows_def)
    with e1 show ?thesis by (simp add: visit_page_def)
  qed
qed

lemma js_scrape_grows:
  assumes hi: "\<And>s. log_grows a 0 0 s (handle_interactions (pw E) s)"
    and run: "js_scrape E s0 = (r, s')"
  shows "log_grows a 2 3 (s0\<lparr>js_scrape_calls := js_scrape_calls s0 + 1\<rparr>) s'"
proof -
  define s where "s = s0\<lparr>js_scrape_calls := js_scrape_calls s0 + 1\<rparr>"
  have zero: "\<And>t. log_grows 0 0 0 s t \<Longrightarrow> log_grows a 2 3 s t"
    by (erule log_grows_mono) simp_all
  show ?thesis
  proof (cases "PLAYWRIGHT_AVAILABLE E")
    case False
    with run have "s' = append_error ''Playwright not available. Install with: pip install playwright && playwright install chromium'' ''render'' s"
      by (simp add: js_scrape_def Let_def s_def)
    then show ?thesis
      using zero[OF append_error_grows] by (simp add: s_def)
  next
    case True
    obtain r1 s1 where l: "page_op (pw_launch (pw E)) s = (r1, s1)"
      by (cases "page_op (pw_launch (pw E)) s")
    note g1 = page_op_grows[OF l]
    show ?thesis
    proof (cases r1)
      case (Inl e)
      with run True l have "s' = s1" by (simp add: js_scrape_def Let_def s_def)
      with zero[OF g1] show ?thesis by (simp add: s_def)
    next
      case (Inr x)
      obtain r2 s2 where t: "js_scrape_try E s1 = (r2, s2)"
        by (cases "js_scrape_try E s1")
      have g2: "log_grows a 2 3 s s2"
        by (rule log_grows_mono[OF log_grows_trans[OF g1 js_scrape_try_grows[OF hi t]]]) simp_all
      show ?thesis
      proof (cases r2)
        case Inr2: (Inr res)
        with run True l Inr t have "s' = s2" by (simp add: js_scrape_def Let_def s_def)
        with g2 show ?thesis by (simp add: s_def)
      next
        case (Inl e)
        obtain r3 s3 where c: "page_op (pw_close (pw E)) s2 = (r3, s3)"
          by (cases "page_op (pw_close (pw E)) s2")
        from run True l Inr t Inl c have "s' = s3"
          by (cases r3) (simp_all add: js_scrape_def Let_def s_def)
        moreover have "log_grows a 2 3 s s3"
          by (rule log_grows_mono[OF log_grows_trans[OF g2 page_op_grows[OF c]]]) simp_all
        ultimately show ?thesis by (simp add: s_def)
      qed
    qed
  qed
qed

section \<open>Properties of the orchestration\<close>

lemma static_fetch_grows: "static_fetch E s = (x, s1) \<Longrightarrow> log_grows 0 0 0 s s1"
  by (auto simp: static_fetch_def log_grows_refl append_error_grows split: sum.splits)

lemma errors_extend_grows: "log_grows 0 0 0 s (s\<lparr>errors := errors s @ es\<rparr>)"
  by (simp add: log_grows_def)



lemma scrape_js_only_grows:
  assumes hi: "\<And>s. log_grows a 0 0 s (handle_interactions (pw E) s)"
    and run: "scrape_js_only E s = (r, s')"
  shows "log_grows a 2 3 (s\<lparr>js_scrape_calls := js_scrape_calls s + 1\<rparr>) s'"
proof -
  obtain r1 s1 where j: "js_scrape E s = (r1, s1)" by (cases "js_scrape E s")
  note g = js_scrape_grows[OF hi j]
  have ext: "\<And>t. log_grows 0 0 0 s1 t \<Longrightarrow> log_grows a 2 3 (s\<lparr>js_scrape_calls := Suc (js_scrape_calls s)\<rparr>) t"
    using log_grows_trans[OF g] by fastforce
  from run j show ?thesis
    by (auto simp: scrape_js_only_def split: sum.splits option.splits
             intro: ext errors_extend_grows append_error_grows log_grows_refl)
qed

lemma scrape_js_fallback_grows:
  assumes hi: "\<And>s. log_grows a 0 0 s (handle_interactions (pw E) s)"
    and run: "scrape_js_fallback E secs s = (r, s')"
  shows "log_grows a 2 3 (s\<lparr>js_scrape_calls := js_scrape_calls s + 1\<rparr>) s'"
proof -
  obtain r1 s1 where j: "js_scrape E s = (r1, s1)" by (cases "js_scrape E s")
  note g = js_scrape_grows[OF hi j]
  have ext: "\<And>t. log_grows 0 0 0 s1 t \<Longrightarrow> log_grows a 2 3 (s\<lparr>js_scrape_calls := Suc (js_scrape_calls s)\<rparr>) t"
    using log_grows_trans[OF g] by fastforce
  from run j show ?thesis
    by (auto simp: scrape_js_fallback_def split: sum.splits option.splits if_splits
             intro: ext errors_extend_grows append_error_grows log_grows_refl)
qed

lemma scrape_paths_grows:
  assumes hi: "\<And>s. log_grows a 0 0 s (handle_interactions (pw E) s)"
    and run: "scrape_paths E s = (r, s')"
  shows "log_grows a 2 3
           (s\<lparr>js_scrape_calls := js_scrape_calls s + (if render_needed E (url s) then 1 else 0)\<rparr>) s'"
proof -
  obtain x s1 where f: "static_fetch E s = (x, s1)" by (cases "static_fetch E s")
  note g1 = static_fetch_grows[OF f]
  have u1: "url s1 = url s" and c1: "js_scrape_calls s1 = js_scrape_calls s"
    using g1 by (simp_all add: log_grows_def)
  have lift: "\<And>t n. log_grows a 2 3 (s1\<lparr>js_scrape_calls := n\<rparr>) t
                \<Longrightarrow> log_grows a 2 3 (s\<lparr>js_scrape_calls := n\<rparr>) t"
    using g1 unfolding log_grows_def by (auto intro: prefix_order.trans)
  have stay: "\<And>t. log_grows 0 0 0 s1 t \<Longrightarrow> log_grows a 2 3 (s\<lparr>js_scrape_calls := js_scrape_calls s + 0\<rparr>) t"
    using g1 unfolding log_grows_def by (auto intro: prefix_order.trans)
  have fx: "x = (case requests_get E (url s) of Inl e \<Rightarrow> None | Inr t \<Rightarrow> Some t)"
    using f by (auto simp: static_fetch_def split: sum.splits)
  show ?thesis
  proof (cases "static_extraction E (url s)")
    case None
    then have "scrape_paths E s = scrape_js_only E s1" and "render_needed E (url s)"
      using f fx by (auto simp: scrape_paths_def static_extraction_def render_needed_def
                          split: sum.splits if_splits)
    with run lift[OF scrape_js_only_grows[OF hi, of s1 r s']] c1 show ?thesis by simp
  next
    case (Some res)
    then obtain html where h: "requests_get E (url s) = Inr html" "html \<noteq> []"
      and res: "res = and_then (BeautifulSoup E html ''html.parser'')
                        (\<lambda>parser. extract_sections (bs E) (urljoin E) parser (url s))"
      by (auto simp: static_extraction_def split: sum.splits if_splits)
    from h fx have x: "x = Some html" by simp
    show ?thesis
    proof (cases "BeautifulSoup E html ''html.parser''")
      case (Inl e)
      with res Some have "\<not> render_needed E (url s)" by (simp add: render_needed_def and_then_def)
      moreover from Inl run f x h have "s' = s1" by (simp add: scrape_paths_def)
      ultimately show ?thesis using stay[OF log_grows_refl] by simp
    next
      case (Inr parser)
      define s2 where "s2 = s1\<lparr>meta := extract_meta (bs E) parser (meta s1)\<rparr>"
      have g2: "log_grows 0 0 0 s1 s2" by (simp add: s2_def log_grows_def)
      have u2: "url s2 = url s" and c2: "js_scrape_calls s2 = js_scrape_calls s"
        using u1 c1 by (simp_all add: s2_def)
      have lift2: "\<And>t n. log_grows a 2 3 (s2\<lparr>js_scrape_calls := n\<rparr>) t
                \<Longrightarrow> log_grows a 2 3 (s\<lparr>js_scrape_calls := n\<rparr>) t"
        using lift by (simp add: s2_def log_grows_def)
      show ?thesis
      proof (cases "extract_sections (bs E) (urljoin E) parser (url s)")
        case (Inl e)
        with res Some Inr have "\<not> render_needed E (url s)" by (simp add: render_needed_def and_then_def)
        moreover from Inl Inr run f x h u2 have "s' = s2" by (simp add: scrape_paths_def s2_def Let_def)
        ultimately show ?thesis using stay[OF g2] by simp
      next
        case secs: (Inr secs)
        with res Some Inr have rn: "render_needed E (url s) = (total_text secs < 500)"
          by (simp add: render_needed_def and_then_def)
        show ?thesis
        proof (cases "total_text secs < 500")
          case True
          with secs Inr run f x h u2 have "scrape_js_fallback E secs s2 = (r, s')"
            by (simp add: scrape_paths_def s2_def Let_def)
          from lift2[OF scrape_js_fallback_grows[OF hi this]] rn True c2 show ?thesis by simp
        next
          case False
          with secs Inr run f x h u2 have "s' = s2" by (simp add: scrape_paths_def s2_def Let_def)
          with stay[OF g2] rn False show ?thesis by simp
        qed
      qed
    qed
  qed
qed

lemma seq_Inr:
  assumes "seq m f s = (Inr v, s')"
  obtains x s1 where "m s = (Inr x, s1)" and "f x s1 = (Inr v, s')"
  using assms by (auto simp: seq_def split: prod.splits sum.splits)

lemma js_scrape_after_goto_sections:
  assumes "js_scrape_after_goto E s = (Inr (Some res), s')"
  shows "\<exists>parser u. extract_sections (bs E) (urljoin E) parser u = Inr (js_sections res)"
        and "js_errors res = []"
  using assms unfolding js_scrape_after_goto_def
  by (auto elim!: seq_Inr simp: ret_def call_def) blast

lemma js_scrape_try_sections:
  assumes "js_scrape_try E s = (Inr (Some res), s')"
  shows "\<exists>parser u. extract_sections (bs E) (urljoin E) parser u = Inr (js_sections res)"
        and "js_errors res = []"
  using assms js_scrape_after_goto_sections[of E _ res s'] unfolding js_scrape_try_def
  by (auto elim!: seq_Inr)

lemma js_scrape_sections:
  assumes "js_scrape E s = (Inr (Some res), s')"
  shows "\<exists>parser u. extract_sections (bs E) (urljoin E) parser u = Inr (js_sections res)"
        and "js_errors res = []"
  using assms js_scrape_try_sections[of E _ res s']
  by (auto simp: js_scrape_def Let_def split: if_splits prod.splits sum.splits)

lemma js_scrape_pages:
  assumes run: "js_scrape E s = (r, s')"
  shows "pages (interactions s') = pages (interactions s)
         \<or> prefix (pages (interactions s) @ [url s]) (pages (interactions s'))"
proof (cases "PLAYWRIGHT_AVAILABLE E")
  case False
  with run show ?thesis by (auto simp: js_scrape_def Let_def append_error_def)
next
  case True
  define t where "t = s\<lparr>js_scrape_calls := js_scrape_calls s + 1\<rparr>"
  obtain r1 s1 where l: "page_op (pw_launch (pw E)) t = (r1, s1)"
    by (cases "page_op (pw_launch (pw E)) t")
  note e1 = page_op_eq[OF l]
  show ?thesis
  proof (cases r1)
    case (Inl e)
    with run True l e1 show ?thesis by (simp add: js_scrape_def Let_def t_def)
  next
    case (Inr x)
    obtain r2 s2 where tr: "js_scrape_try E s1 = (r2, s2)" by (cases "js_scrape_try E s1")
    have p2: "pages (interactions s2) = pages (interactions s)
         \<or> prefix (pages (interactions s) @ [url s]) (pages (interactions s2))"
      using js_scrape_try_pages[OF tr] e1 by (simp add: t_def)
    show ?thesis
    proof (cases r2)
      case Inr2: (Inr res)
      with run True l Inr tr p2 show ?thesis by (simp add: js_scrape_def Let_def t_def)
    next
      case (Inl e)
      obtain r3 s3 where c: "page_op (pw_close (pw E)) s2 = (r3, s3)"
        by (cases "page_op (pw_close (pw E)) s2")
      from run True l Inr tr Inl c have "s' = s3"
        by (cases r3) (simp_all add: js_scrape_def Let_def t_def)
      with p2 page_op_eq[OF c] show ?thesis by simp
    qed
  qed
qed

text \<open>The four ways through lines 50-88.\<close>

lemma scrape_paths_cases:
  obtains
    (js_only) s1 where "static_extraction E (url s) = None"
      and "static_fetch E s = (case requests_get E (url s) of Inl e \<Rightarrow> None | Inr t \<Rightarrow> Some t, s1)"
      and "scrape_paths E s = scrape_js_only E s1"
  | (raised) e s2 where "static_extraction E (url s) = Some (Inl e)"
      and "scrape_paths E s = (Inl e, s2)" and "interactions s2 = interactions s"
  | (fallback) parser secs s2 where "static_extraction E (url s) = Some (Inr secs)"
      and "extract_sections (bs E) (urljoin E) parser (url s) = Inr secs"
      and "total_text secs < 500"
      and "interactions s2 = interactions s" and "url s2 = url s" and "errors s2 = errors s"
      and "scrape_paths E s = scrape_js_fallback E secs s2"
  | (static) parser secs s2 where "static_extraction E (url s) = Some (Inr secs)"
      and "extract_sections (bs E) (urljoin E) parser (url s) = Inr secs"
      and "\<not> total_text secs < 500"
      and "interactions s2 = interactions s" and "url s2 = url s" and "errors s2 = errors s"
      and "scrape_paths E s = (Inr secs, s2)"
proof (cases "requests_get E (url s)")
  case (Inl e)
  then show ?thesis
    by (intro js_only[of "append_error (''Static fetch failed: '' @ e) ''fetch'' s"])
       (simp_all add: static_extraction_def static_fetch_def scrape_paths_def)
next
  case (Inr html)
  then have f: "static_fetch E s = (Some html, s)" by (simp add: static_fetch_def)
  show ?thesis
  proof (cases "html = []")
    case True
    with Inr f show ?thesis
      by (intro js_only[of s]) (simp_all add: static_extraction_def scrape_paths_def)
  next
    case False
    show ?thesis
    proof (cases "BeautifulSoup E html ''html.parser''")
      case (Inl e)
      with Inr f False show ?thesis
        by (intro raised[of e s]) (simp_all add: static_extraction_def scrape_paths_def and_then_def)
    next
      case P: (Inr parser)
      define s2 where "s2 = s\<lparr>meta := extract_meta (bs E) parser (meta s)\<rparr>"
      show ?thesis
      proof (cases "extract_sections (bs E) (urljoin E) parser (url s)")
        case (Inl e)
        with Inr f False P show ?thesis
          by (intro raised[of e s2])
             (simp_all add: static_extraction_def scrape_paths_def and_then_def s2_def Let_def)
      next
        case S: (Inr secs)
        show ?thesis
        proof (cases "total_text secs < 500")
          case True
          with Inr f False P S show ?thesis
            by (intro fallback[of secs parser s2])
               (simp_all add: static_extraction_def scrape_paths_def and_then_def s2_def Let_def)
        next
          case F: False
          with Inr f False P S show ?thesis
            by (intro static[of secs parser s2])
               (simp_all add: static_extraction_def scrape_paths_def and_then_def s2_def Let_def)
        qed
      qed
    qed
  qed
qed

lemma scrape_fst:
  "fst (scrape E s) =
     (case scrape_paths E s of
        (Inl e, s') \<Rightarrow> Inl e
      | (Inr secs, s') \<Rightarrow>
          Inr \<lparr>e_url = url s', e_scrapedAt = now E, e_meta = meta s',
               e_sections = (if secs = [] then [sentinel (url s')] else secs),
               e_interactions = interactions s', e_errors = errors s'\<rparr>)"
  and scrape_snd: "snd (scrape E s) = snd (scrape_paths E s)"
  by (simp_all add: scrape_def Let_def split: prod.splits sum.splits)



lemma log_grows_0_same:
  "log_grows 0 0 0 s s' \<Longrightarrow> interactions s' = interactions s \<and> url s' = url s"
  unfolding log_grows_def
  by (cases "interactions s", cases "interactions s'") (auto simp: prefix_def)

lemma scrape_js_only_pages:
  assumes "scrape_js_only E s = (r, s')"
  shows "pages (interactions s') = pages (interactions s)
         \<or> prefix (pages (interactions s) @ [url s]) (pages (interactions s'))"
proof -
  obtain r1 s1 where j: "js_scrape E s = (r1, s1)" by (cases "js_scrape E s")
  from assms j have "interactions s' = interactions s1"
    by (auto simp: scrape_js_only_def append_error_def split: sum.splits option.splits)
  with js_scrape_pages[OF j] show ?thesis by simp
qed

lemma scrape_js_fallback_pages:
  assumes "scrape_js_fallback E secs s = (r, s')"
  shows "pages (interactions s') = pages (interactions s)
         \<or> prefix (pages (interactions s) @ [url s]) (pages (interactions s'))"
proof -
  obtain r1 s1 where j: "js_scrape E s = (r1, s1)" by (cases "js_scrape E s")
  from assms j have "interactions s' = interactions s1"
    by (auto simp: scrape_js_fallback_def append_error_def split: sum.splits option.splits if_splits)
  with js_scrape_pages[OF j] show ?thesis by simp
qed

lemma scrape_paths_pages:
  assumes run: "scrape_paths E s = (r, s')"
  shows "pages (interactions s') = pages (interactions s)
         \<or> prefix (pages (interactions s) @ [url s]) (pages (interactions s'))"
proof (cases rule: scrape_paths_cases[of E s])
  case (js_only s1)
  from static_fetch_grows[OF js_only(2)] have "interactions s1 = interactions s \<and> url s1 = url s"
    by (rule log_grows_0_same)
  with scrape_js_only_pages[of E s1 r s'] run js_only(3) show ?thesis by simp
next
  case (raised e s2)
  with run show ?thesis by simp
next
  case (fallback parser secs s2)
  with scrape_js_fallback_pages[of E secs s2 r s'] run show ?thesis by simp
next
  case (static parser secs s2)
  with run show ?thesis by simp
qed

lemma scrape_paths_sections:
  assumes run: "scrape_paths E s = (Inr secs, s')"
  shows "secs = [] \<or> (\<exists>parser u. extract_sections (bs E) (urljoin E) parser u = Inr secs)"
proof (cases rule: scrape_paths_cases[of E s])
  case (js_only s1)
  with run have "scrape_js_only E s1 = (Inr secs, s')" by simp
  then show ?thesis
    using js_scrape_sections(1)[of E s1]
    by (auto simp: scrape_js_only_def split: prod.splits sum.splits option.splits)
next
  case (raised e s2)
  with run show ?thesis by simp
next
  case (fallback parser secs0 s2)
  with run have "scrape_js_fallback E secs0 s2 = (Inr secs, s')" by simp
  then show ?thesis
    using js_scrape_sections(1)[of E s2] fallback(2)
    by (auto simp: scrape_js_fallback_def split: prod.splits sum.splits option.splits if_splits)
next
  case (static parser secs0 s2)
  with run show ?thesis by auto
qed

lemma extract_sections_ids:
  assumes "extract_sections B uj parser u = Inr secs"
  shows "map sec_id secs = map2 (\<lambda>i sec. sec_type sec @ ''-'' @ str_nat i) [0..<length secs] secs"
    and "distinct (map sec_id secs)"
proof -
  from assms have "extract_all B uj u (segment_regions B parser) 0 = Inr secs"
    by (simp add: extract_sections_eq)
  from extract_all_ids[OF this]
  show ids: "map sec_id secs = map2 (\<lambda>i sec. sec_type sec @ ''-'' @ str_nat i) [0..<length secs] secs"
    by simp
  show "distinct (map sec_id secs)"
    using ids by (intro ordinal_ids_distinct[of secs 0]) simp
qed

lemma scrape_Inr:
  assumes "fst (scrape E s) = Inr env"
  obtains secs s' where "scrape_paths E s = (Inr secs, s')"
    and "env = \<lparr>e_url = url s', e_scrapedAt = now E, e_meta = meta s',
               e_sections = (if secs = [] then [sentinel (url s')] else secs),
               e_interactions = interactions s', e_errors = errors s'\<rparr>"
    and "snd (scrape E s) = s'"
  using assms
  by (cases "scrape_paths E s") (auto simp: scrape_fst scrape_snd split: sum.splits)

lemma scrape_paths_url:
  assumes "scrape_paths E s = (r, s')"
  shows "url s' = url s"
  using scrape_paths_grows[OF handle_interactions_grows assms] by (simp add: log_grows_def)



section \<open>Sample runs\<close>

lemma empty_doc_sections: "extract_sections doc_bs4 sample_urljoin (document []) u = Inr []"
  by (simp add: extract_sections_eq segment_regions_def heading_regions_def body_regions_def
        doc_bs4_def doc_select_def document_def)

lemma empty_doc_meta: "extract_meta doc_bs4 (document []) m = m"
  by (simp add: extract_meta_def doc_bs4_def doc_select_def document_def)

lemma empty_doc_str: "bs_str doc_bs4 (document []) = []"
  by (simp add: doc_bs4_def document_def on_node_def)

lemma sample_env_simps:
  "requests_get (sample_env (Inl e) av p) u = Inl e"
  "BeautifulSoup (sample_env st av p) m ''lxml'' = Inr (sp_rendered p)"
  "bs (sample_env st av p) = doc_bs4"
  "urljoin (sample_env st av p) = sample_urljoin"
  "PLAYWRIGHT_AVAILABLE (sample_env st av p) = av"
  "pw (sample_env st av p) = sample_pw p"
  "now (sample_env st av p) = ''2024-01-01T00:00:00+00:00''"
  by (simp_all add: sample_env_def)

lemmas run_defs =
  scrape_def scrape_paths_def static_fetch_def scrape_js_only_def scrape_js_fallback_def
  js_scrape_def js_scrape_try_def js_scrape_after_goto_def seq_def ret_def update_def call_def
  page_op_def handle_interactions_def load_more_selectors_def click_first_tab_def
  handle_scroll_and_pagination_def scroll_round_def next_links_def
  append_click_def append_error_def incr_scrolls_def visit_page_def WebsiteScraper_def
  sample_env_simps sample_pw_def sample_urljoin_def
  empty_doc_sections empty_doc_meta empty_doc_str Let_def sentinel_def

lemma plain_scrape:
  "fst (scrape (sample_env (Inl ''timeout'') True plain_page) (WebsiteScraper ''https://x.test/'' 0))
     = Inr plain_envelope"
  by (simp add: run_defs plain_page_def plain_envelope_def)

lemma sample_env_static:
  "requests_get (sample_env (Inr d) av p) u = Inr (bs_str doc_bs4 d)"
  "BeautifulSoup (sample_env (Inr d) av p) m ''html.parser'' = Inr d"
  by (simp_all add: sample_env_def)

lemmas env_defs = first_meta_def fetch_failed_def no_playwright_def plain_page_def

lemma offline_scrape:
  "fst (scrape (sample_env (Inl ''timeout'') False plain_page) (WebsiteScraper ''https://x.test/'' 0))
     = Inr offline_envelope"
  by (simp add: run_defs env_defs offline_envelope_def)




lemma two_doc_eval:
  "extract_sections doc_bs4 sample_urljoin two_doc ''https://x.test/'' = Inr two_doc_sections"
  "extract_meta doc_bs4 two_doc first_meta = first_meta"
  "bs_str doc_bs4 two_doc \<noteq> []"
  "total_text two_doc_sections < 500"
  "two_doc_sections \<noteq> []"
  by code_simp+


lemma two_doc_scrape:
  "fst (scrape (sample_env (Inr two_doc) False plain_page) (WebsiteScraper ''https://x.test/'' 0))
     = Inr two_doc_envelope"
  using two_doc_eval
  by (simp add: run_defs sample_env_static two_doc_envelope_def first_meta_def no_playwright_def)






section \<open>The scrape as a whole\<close>



text \<open>
  Claim C6. Every returned envelope has at least one section: the sections are those
  of lines 50-88 when there are any, and otherwise exactly the sentinel, with id
  "empty-0", type "unknown", label "No content found", empty content, empty raw markup
  and \<open>truncated\<close> false.
\<close>

theorem envelope_has_section:
  assumes "fst (scrape E s) = Inr env"
  shows "e_sections env \<noteq> []
       \<and> (\<exists>secs. fst (scrape_paths E s) = Inr secs
             \<and> e_sections env = (if secs = [] then [sentinel (url s)] else secs))
       \<and> sentinel (url s) =
           \<lparr>sec_id = ''empty-0'', sec_type = ''unknown'', sec_label = ''No content found'',
            sourceUrl = url s,
            sec_content = \<lparr>headings = [], ctext = [], links = [], images = [], lists = [], tables = []\<rparr>,
            rawHtml = [], truncated = False\<rparr>"
proof -
  from assms obtain secs s' where run: "scrape_paths E s = (Inr secs, s')"
    and env: "env = \<lparr>e_url = url s', e_scrapedAt = now E, e_meta = meta s',
               e_sections = (if secs = [] then [sentinel (url s')] else secs),
               e_interactions = interactions s', e_errors = errors s'\<rparr>"
    by (rule scrape_Inr)
  have "url s' = url s" by (rule scrape_paths_url[OF run])
  with run env show ?thesis by (auto simp: sentinel_def)
qed

theorem envelope_has_section_witness:
  "fst (scrape (sample_env (Inl ''timeout'') False plain_page) (WebsiteScraper ''https://x.test/'' 0))
     = Inr offline_envelope
   \<and> e_sections offline_envelope \<noteq> []
   \<and> e_sections offline_envelope = [sentinel ''https://x.test/'']"
  using envelope_has_section[OF offline_scrape] offline_scrape
  by (simp add: offline_envelope_def)

text \<open>
  Claim C7, as amended. Within one envelope the section ids are pairwise distinct;
  and either the envelope holds the sentinel alone (id "empty-0", type "unknown"), or
  the id of its i-th section is that section's type, a dash and the decimal i, for
  i = 0, 1, 2, ... in order.
\<close>

theorem section_ids_in_envelope:
  assumes "fst (scrape E s) = Inr env"
  shows "distinct (map sec_id (e_sections env))
       \<and> (e_sections env = [sentinel (url s)]
          \<or> map sec_id (e_sections env)
              = map2 (\<lambda>i sec. sec_type sec @ ''-'' @ str_nat i)
                  [0..<length (e_sections env)] (e_sections env))"
proof -
  from assms obtain secs s' where run: "scrape_paths E s = (Inr secs, s')"
    and env: "env = \<lparr>e_url = url s', e_scrapedAt = now E, e_meta = meta s',
               e_sections = (if secs = [] then [sentinel (url s')] else secs),
               e_interactions = interactions s', e_errors = errors s'\<rparr>"
    by (rule scrape_Inr)
  have u: "url s' = url s" by (rule scrape_paths_url[OF run])
  show ?thesis
  proof (cases "secs = []")
    case True
    with env u show ?thesis by simp
  next
    case False
    with scrape_paths_sections[OF run] obtain parser v where
      "extract_sections (bs E) (urljoin E) parser v = Inr secs" by auto
    from extract_sections_ids[OF this] False env show ?thesis by simp
  qed
qed

theorem section_ids_in_envelope_witness:
  "fst (scrape (sample_env (Inr two_doc) False plain_page) (WebsiteScraper ''https://x.test/'' 0))
     = Inr two_doc_envelope
   \<and> distinct (map sec_id (e_sections two_doc_envelope))
   \<and> map sec_id (e_sections two_doc_envelope) = [''nav-0'', ''section-1'']
   \<and> map sec_type (e_sections two_doc_envelope) = [''nav'', ''section'']"
  using section_ids_in_envelope[OF two_doc_scrape] two_doc_scrape
  by (simp add: two_doc_envelope_def two_doc_sections_def)

text \<open>
  The claim as stated fails on the sentinel: its id is "empty-0" while its type and
  ordinal give "unknown-0".
\<close>

theorem sentinel_id_counterexample:
  "fst (scrape (sample_env (Inl ''timeout'') False plain_page) (WebsiteScraper ''https://x.test/'' 0))
     = Inr offline_envelope
   \<and> map sec_id (e_sections offline_envelope) = [''empty-0'']
   \<and> map2 (\<lambda>i sec. sec_type sec @ ''-'' @ str_nat i)
         [0..<length (e_sections offline_envelope)] (e_sections offline_envelope)
       = [''unknown-0'']"
proof -
  have "str_nat 0 = ''0''" by code_simp
  then show ?thesis
    using offline_scrape by (simp add: offline_envelope_def sentinel_def)
qed







text \<open>
  Claim C10. The pages of the interaction log are at most 2, and the first of them,
  when there is one, is the seed URL.
\<close>

theorem pages_at_most_two:
  assumes "fst (scrape E (WebsiteScraper u w)) = Inr env"
  shows "length (pages (e_interactions env)) \<le> 2
       \<and> (pages (e_interactions env) \<noteq> [] \<longrightarrow> hd (pages (e_interactions env)) = u)"
proof -
  define s where "s = WebsiteScraper u w"
  have init: "pages (interactions s) = []" "url s = u"
    by (simp_all add: s_def WebsiteScraper_def)
  from assms obtain secs s' where run: "scrape_paths E s = (Inr secs, s')"
    and env: "env = \<lparr>e_url = url s', e_scrapedAt = now E, e_meta = meta s',
               e_sections = (if secs = [] then [sentinel (url s')] else secs),
               e_interactions = interactions s', e_errors = errors s'\<rparr>"
    unfolding s_def[symmetric] by (rule scrape_Inr)
  have "length (pages (interactions s')) \<le> 2"
    using scrape_paths_grows[OF handle_interactions_grows run] init
    by (simp add: log_grows_def)
  moreover have "pages (interactions s') \<noteq> [] \<longrightarrow> hd (pages (interactions s')) = u"
    using scrape_paths_pages[OF run] init by (auto simp: prefix_def)
  ultimately show ?thesis using env by simp
qed

theorem pages_at_most_two_witness:
  "fst (scrape (sample_env (Inl ''timeout'') True plain_page) (WebsiteScraper ''https://x.test/'' 0))
     = Inr plain_envelope
   \<and> pages (e_interactions plain_envelope) = [''https://x.test/'', ''https://x.test/page2'']
   \<and> length (pages (e_interactions plain_envelope)) \<le> 2
   \<and> hd (pages (e_interactions plain_envelope)) = ''https://x.test/''"
  using pages_at_most_two[OF plain_scrape] plain_scrape
  by (simp add: plain_envelope_def)


end
